theory Spec2Isabelle
  imports Complex_Main "HOL-Library.AList"
begin

section \<open>Data model\<close>

text \<open>
  A Python \<open>str\<close> is a sequence of Unicode code points; \<open>S\<close> reads an ASCII literal.
  A Python \<open>float\<close> is idealised as a real number: finite values, no rounding and no
  overflow.
  A \<open>dict\<close> is an association list in insertion order; \<open>AList.update\<close> overwrites
  an existing key in place and appends a new one, as assignment to a dict key does.
\<close>

type_synonym str = "nat list"

definition S :: "string \<Rightarrow> str" where
  "S cs = map of_char cs"

datatype meta_value = MStr str | MInt int

type_synonym metadata = "(str \<times> meta_value) list"

datatype error = IndexError | ExternalError str

record SearchResult =
  chunk_id :: str
  text' :: str
  score :: real
  metadata :: metadata

text \<open>\<open>xs[:n]\<close> for a Python int \<open>n\<close>: a negative bound counts from the end.\<close>

definition slice_to :: "int \<Rightarrow> 'a list \<Rightarrow> 'a list" where
  "slice_to n xs =
     (if n < 0 then take (nat (int (length xs) + n)) xs else take (nat n) xs)"

text \<open>\<open>x or d\<close> for an optional int: \<open>None\<close> and \<open>0\<close> are falsy.\<close>

definition int_or :: "int option \<Rightarrow> int \<Rightarrow> int" where
  "int_or x d = (case x of None \<Rightarrow> d | Some n \<Rightarrow> if n = 0 then d else n)"

text \<open>\<open>xs[i]\<close> for an index that is known to be non-negative.\<close>

definition item :: "'a list \<Rightarrow> nat \<Rightarrow> error + 'a" where
  "item xs i = (if i < length xs then Inr (xs ! i) else Inl IndexError)"

section \<open>Hybrid search: score normalisation\<close>

text \<open>\<open>arr.min()\<close> and \<open>arr.max()\<close> of a non-empty numpy array.\<close>

fun arr_min :: "real list \<Rightarrow> real" where
  "arr_min (x # xs) = fold min xs x"

fun arr_max :: "real list \<Rightarrow> real" where
  "arr_max (x # xs) = fold max xs x"

text \<open>\<open>HybridSearch._normalize_scores\<close>.\<close>

definition normalize_scores :: "real list \<Rightarrow> real list" where
  "normalize_scores scores =
     (if scores = [] then []
      else let min_s = arr_min scores; max_s = arr_max scores
           in if max_s - min_s = 0 then replicate (length scores) 1
              else map (\<lambda>s. (s - min_s) / (max_s - min_s)) scores)"

section \<open>Collaborators\<close>

text \<open>
  What the retrieval code calls but does not define: the Unicode tables behind the
  \<open>str\<close> methods, the Chroma collections, the OpenAI embedding and chat endpoints, the
  \<open>rank_bm25\<close> scorer, the FlashRank model, the text splitter, \<open>uuid4\<close> and the clock.
  Each is a parameter, a function of the arguments of the call; a call that can raise
  returns \<open>Inl\<close>.
\<close>

record get_result =
  get_ids :: "str list"
  get_documents :: "str list"
  get_metadatas :: "metadata list"

record query_result =
  q_ids :: "str list list"
  q_documents :: "str list list"
  q_metadatas :: "metadata list list"
  q_distances :: "real list list"

record passage =
  p_id :: str
  p_text :: str
  p_meta :: metadata

record ranked =
  r_id :: str
  r_text :: str
  r_meta :: metadata
  r_score :: real

record settings =
  CHUNK_SIZE :: int
  CHUNK_OVERLAP :: int
  RETRIEVAL_TOP_K :: int
  HYBRID_ALPHA :: real
  RERANKER_MODEL :: str
  RERANKER_TOP_N :: int
  OPENAI_CHAT_MODEL :: str

record env =
  isalpha :: "nat \<Rightarrow> bool"
  isspace :: "nat \<Rightarrow> bool"
  lower :: "str \<Rightarrow> str"
  collection_get :: "error + get_result"
  collection_peek :: "int \<Rightarrow> error + get_result"
  collection_query :: "real list \<Rightarrow> int \<Rightarrow> error + query_result"
  open_parent_collection :: "error + unit"
  parent_collection_get :: "meta_value \<Rightarrow> error + str list"
  embed_query :: "str \<Rightarrow> error + real list"
  chat_create :: "str \<Rightarrow> str \<Rightarrow> str \<Rightarrow> real \<Rightarrow> int \<Rightarrow> error + str option"
  bm25_get_scores :: "str list list \<Rightarrow> str list \<Rightarrow> real list"
  Ranker :: "str \<Rightarrow> error + unit"
  ranker_rerank :: "str \<Rightarrow> passage list \<Rightarrow> error + ranked list"
  split_text :: "int \<Rightarrow> int \<Rightarrow> str list \<Rightarrow> str \<Rightarrow> str list"
  uuid4 :: "nat \<Rightarrow> str"
  perf_counter :: "nat \<Rightarrow> real"

text \<open>
  \<^item> \<open>isalpha\<close>, \<open>isspace\<close>, \<open>lower\<close>: \<open>c.isalpha()\<close>, the whitespace that \<open>split()\<close> and
    \<open>strip()\<close> look for, and \<open>s.lower()\<close>;
  \<^item> \<open>collection_get\<close>: \<open>collection.get(include=["documents", "metadatas"])\<close>;
  \<^item> \<open>collection_peek\<close>: \<open>collection.peek(limit)\<close>;
  \<^item> \<open>collection_query\<close>: \<open>collection.query(query_embeddings=[e], n_results=n, ...)\<close>;
  \<^item> \<open>open_parent_collection\<close>: \<open>get_chroma_client()\<close> and then
    \<open>get_or_create_collection(client, name="legalmind_parents")\<close>;
  \<^item> \<open>parent_collection_get\<close>: the \<open>"documents"\<close> of
    \<open>parent_collection.get(ids=[pid], include=["documents"])\<close>;
  \<^item> \<open>embed_query\<close>: \<open>embeddings_fn.embed_query(query)\<close>;
  \<^item> \<open>chat_create\<close>: \<open>client.chat.completions.create\<close> for a model, a system and a
    user message, a temperature and \<open>max_tokens\<close>, and then
    \<open>response.choices[0].message.content\<close>;
  \<^item> \<open>bm25_get_scores\<close>: \<open>BM25Okapi(tokenized).get_scores(tokenized_query)\<close>, one score
    per document of the index;
  \<^item> \<open>Ranker\<close>: loading the model, \<open>Ranker(model_name=...)\<close>; \<open>ranker_rerank\<close>:
    \<open>ranker.rerank(RerankRequest(query, passages))\<close>;
  \<^item> \<open>split_text\<close>: \<open>RecursiveCharacterTextSplitter(chunk_size, chunk_overlap,
    separators).split_text(text)\<close>;
  \<^item> \<open>uuid4\<close>: \<open>str(uuid4())\<close> at the \<open>n\<close>-th call; \<open>perf_counter\<close>: the \<open>n\<close>-th reading
    of \<open>time.perf_counter()\<close>.
\<close>

section \<open>String methods\<close>

text \<open>\<open>content or default\<close> for an optional string: \<open>None\<close> and \<open>""\<close> are falsy.\<close>

definition str_or :: "str option \<Rightarrow> str \<Rightarrow> str" where
  "str_or x d = (case x of None \<Rightarrow> d | Some s \<Rightarrow> if s = [] then d else s)"

text \<open>The fields of a string between the characters that satisfy \<open>p\<close>.\<close>

fun split_on :: "(nat \<Rightarrow> bool) \<Rightarrow> str \<Rightarrow> str list" where
  "split_on p [] = [[]]"
| "split_on p (c # cs) =
     (let ws = split_on p cs
      in if p c then [] # ws else (c # hd ws) # tl ws)"

text \<open>\<open>s.split()\<close>, \<open>s.split("\n")\<close>, \<open>s.strip()\<close> and \<open>s.lstrip(chars)\<close>.\<close>

definition split :: "env \<Rightarrow> str \<Rightarrow> str list" where
  "split E s = filter (\<lambda>w. w \<noteq> []) (split_on (isspace E) s)"

definition split_lines :: "str \<Rightarrow> str list" where
  "split_lines s = split_on (\<lambda>c. c = 10) s"

definition strip :: "env \<Rightarrow> str \<Rightarrow> str" where
  "strip E s = rev (dropWhile (isspace E) (rev (dropWhile (isspace E) s)))"

definition lstrip :: "str \<Rightarrow> str \<Rightarrow> str" where
  "lstrip chars s = dropWhile (\<lambda>c. c \<in> set chars) s"

section \<open>Hybrid search\<close>

record HybridSearch =
  alpha :: real
  bm25 :: "str list list option"
  corpus_ids :: "str list"
  corpus_texts :: "str list"
  corpus_meta :: "metadata list"

text \<open>\<open>HybridSearch.__init__\<close>: no lexical index yet.\<close>

definition HybridSearch_init :: "settings \<Rightarrow> HybridSearch" where
  "HybridSearch_init cfg =
     \<lparr>alpha = HYBRID_ALPHA cfg, bm25 = None, corpus_ids = [], corpus_texts = [],
      corpus_meta = []\<rparr>"

text \<open>The results of a list of fallible steps, or the first error.\<close>

fun collect :: "(error + 'a) list \<Rightarrow> error + 'a list" where
  "collect [] = Inr []"
| "collect (x # xs) =
     (case x of
        Inl e \<Rightarrow> Inl e
      | Inr v \<Rightarrow> (case collect xs of Inl e \<Rightarrow> Inl e | Inr vs \<Rightarrow> Inr (v # vs)))"

text \<open>\<open>HybridSearch._build_bm25_index\<close>.\<close>

definition build_bm25_index :: "env \<Rightarrow> HybridSearch \<Rightarrow> error + HybridSearch" where
  "build_bm25_index E hs =
     (case collection_get E of
        Inl e \<Rightarrow> Inl e
      | Inr all_docs \<Rightarrow>
          if get_documents all_docs = [] then Inr hs
          else Inr (hs\<lparr>corpus_ids := get_ids all_docs,
                        corpus_texts := get_documents all_docs,
                        corpus_meta := get_metadatas all_docs,
                        bm25 := Some (map (\<lambda>doc. split E (lower E doc))
                                       (get_documents all_docs))\<rparr>))"

text \<open>
  \<open>np.argsort\<close>: the indices in ascending order of their scores. Equal scores are kept
  in index order here; numpy's default sort leaves their order open.
\<close>

definition argsort :: "real list \<Rightarrow> nat list" where
  "argsort a = sort_key (\<lambda>i. a ! i) [0..<length a]"

definition bm25_result :: "HybridSearch \<Rightarrow> nat \<Rightarrow> real \<Rightarrow> error + SearchResult" where
  "bm25_result hs idx norm_score =
     (case item (corpus_ids hs) idx of
        Inl e \<Rightarrow> Inl e
      | Inr cid \<Rightarrow>
          (case item (corpus_texts hs) idx of
             Inl e \<Rightarrow> Inl e
           | Inr t \<Rightarrow>
               (case item (corpus_meta hs) idx of
                  Inl e \<Rightarrow> Inl e
                | Inr m \<Rightarrow>
                    Inr \<lparr>chunk_id = cid, text' = t, score = norm_score, metadata = m\<rparr>)))"

text \<open>\<open>HybridSearch._bm25_search\<close>; the index it builds stays in the object.\<close>

definition bm25_search ::
  "env \<Rightarrow> HybridSearch \<Rightarrow> str \<Rightarrow> int \<Rightarrow> error + SearchResult list \<times> HybridSearch" where
  "bm25_search E hs q k =
     (case (if bm25 hs = None then build_bm25_index E hs else Inr hs) of
        Inl e \<Rightarrow> Inl e
      | Inr hs1 \<Rightarrow>
          (case bm25 hs1 of
             None \<Rightarrow> Inr ([], hs1)
           | Some index \<Rightarrow>
               (let tokenized_query = split E (lower E q);
                    raw_scores = bm25_get_scores E index tokenized_query;
                    top_indices = slice_to k (rev (argsort raw_scores));
                    scores_for_top = map (\<lambda>i. raw_scores ! i) top_indices;
                    norm_scores = normalize_scores scores_for_top
                in case collect (map (\<lambda>(idx, norm_score). bm25_result hs1 idx norm_score)
                                   (zip top_indices norm_scores)) of
                     Inl e \<Rightarrow> Inl e
                   | Inr results \<Rightarrow> Inr (results, hs1))))"

definition vector_result ::
  "query_result \<Rightarrow> real list \<Rightarrow> nat \<Rightarrow> str \<Rightarrow> error + SearchResult" where
  "vector_result results norm_scores i cid =
     (case item (q_documents results) 0 of
        Inl e \<Rightarrow> Inl e
      | Inr docs \<Rightarrow>
          (case item docs i of
             Inl e \<Rightarrow> Inl e
           | Inr t \<Rightarrow>
               (case item norm_scores i of
                  Inl e \<Rightarrow> Inl e
                | Inr s \<Rightarrow>
                    (case item (q_metadatas results) 0 of
                       Inl e \<Rightarrow> Inl e
                     | Inr metas \<Rightarrow>
                         (case item metas i of
                            Inl e \<Rightarrow> Inl e
                          | Inr m \<Rightarrow>
                              Inr \<lparr>chunk_id = cid, text' = t, score = s,
                                   metadata = m\<rparr>)))))"

text \<open>\<open>HybridSearch._vector_search\<close>.\<close>

definition vector_search :: "env \<Rightarrow> str \<Rightarrow> int \<Rightarrow> error + SearchResult list" where
  "vector_search E q k =
     (case embed_query E q of
        Inl e \<Rightarrow> Inl e
      | Inr query_embedding \<Rightarrow>
          (case collection_query E query_embedding k of
             Inl e \<Rightarrow> Inl e
           | Inr results \<Rightarrow>
               if q_ids results = [] \<or> hd (q_ids results) = [] then Inr []
               else (case item (q_distances results) 0 of
                       Inl e \<Rightarrow> Inl e
                     | Inr distances \<Rightarrow>
                         (let similarities = map (\<lambda>d. 1 - d) distances;
                              norm_scores = normalize_scores similarities
                          in collect (map (\<lambda>(i, cid). vector_result results norm_scores i cid)
                                        (enumerate 0 (hd (q_ids results))))))))"

text \<open>The \<open>score_map\<close> of \<open>HybridSearch.search\<close>: one entry per chunk id.\<close>

record entry =
  e_text :: str
  e_metadata :: metadata
  vector_score :: real
  bm25_score :: real

type_synonym score_map = "(str \<times> entry) list"

definition add_vector :: "SearchResult \<Rightarrow> score_map \<Rightarrow> score_map" where
  "add_vector r m =
     AList.update (chunk_id r)
       \<lparr>e_text = text' r, e_metadata = metadata r, vector_score = score r, bm25_score = 0\<rparr> m"

definition add_bm25 :: "SearchResult \<Rightarrow> score_map \<Rightarrow> score_map" where
  "add_bm25 r m =
     (case map_of m (chunk_id r) of
        Some d \<Rightarrow> AList.update (chunk_id r) (d\<lparr>bm25_score := score r\<rparr>) m
      | None \<Rightarrow>
          AList.update (chunk_id r)
            \<lparr>e_text = text' r, e_metadata = metadata r, vector_score = 0,
             bm25_score = score r\<rparr> m)"

definition merge_by_id :: "SearchResult list \<Rightarrow> SearchResult list \<Rightarrow> score_map" where
  "merge_by_id vector_results bm25_results =
     fold add_bm25 bm25_results (fold add_vector vector_results [])"

definition combined :: "real \<Rightarrow> score_map \<Rightarrow> SearchResult list" where
  "combined a m =
     map (\<lambda>(cid, d). \<lparr>chunk_id = cid, text' = e_text d,
                       score = a * vector_score d + (1 - a) * bm25_score d,
                       metadata = e_metadata d\<rparr>) m"

text \<open>\<open>sort(key=lambda x: x.score, reverse=True)\<close>: descending and stable.\<close>

definition sort_by_score :: "SearchResult list \<Rightarrow> SearchResult list" where
  "sort_by_score rs = sort_key (\<lambda>r. - score r) rs"

text \<open>\<open>HybridSearch.search\<close>.\<close>

definition search ::
  "settings \<Rightarrow> env \<Rightarrow> HybridSearch \<Rightarrow> str \<Rightarrow> int option
     \<Rightarrow> error + SearchResult list \<times> HybridSearch" where
  "search cfg E hs q k0 =
     (let k = int_or k0 (RETRIEVAL_TOP_K cfg);
          fetch_k = k * 3
      in case vector_search E q fetch_k of
           Inl e \<Rightarrow> Inl e
         | Inr vector_results \<Rightarrow>
             (case bm25_search E hs q fetch_k of
                Inl e \<Rightarrow> Inl e
              | Inr (bm25_results, hs1) \<Rightarrow>
                  Inr (slice_to k (sort_by_score
                         (combined (alpha hs) (merge_by_id vector_results bm25_results))),
                       hs1)))"

section \<open>Reranker\<close>

record ReRanker =
  model_name :: str
  top_n :: int
  ranker_loaded :: bool

definition ReRanker_init :: "settings \<Rightarrow> ReRanker" where
  "ReRanker_init cfg =
     \<lparr>model_name = RERANKER_MODEL cfg, top_n = RERANKER_TOP_N cfg, ranker_loaded = False\<rparr>"

text \<open>\<open>ReRanker._get_ranker\<close>: the model is loaded on first use.\<close>

definition get_ranker :: "env \<Rightarrow> ReRanker \<Rightarrow> error + ReRanker" where
  "get_ranker E rr =
     (if ranker_loaded rr then Inr rr
      else (case Ranker E (model_name rr) of
              Inl e \<Rightarrow> Inl e
            | Inr u \<Rightarrow> Inr (rr\<lparr>ranker_loaded := True\<rparr>)))"

definition passage_of :: "SearchResult \<Rightarrow> passage" where
  "passage_of r = \<lparr>p_id = chunk_id r, p_text = text' r, p_meta = metadata r\<rparr>"

definition result_of :: "ranked \<Rightarrow> SearchResult" where
  "result_of it =
     \<lparr>chunk_id = r_id it, text' = r_text it, score = r_score it, metadata = r_meta it\<rparr>"

text \<open>
  \<open>ReRanker.rerank\<close>. Everything after the emptiness test runs inside \<open>try\<close>; the
  handler returns \<open>results[:top_n]\<close>.
\<close>

definition rerank ::
  "env \<Rightarrow> ReRanker \<Rightarrow> str \<Rightarrow> SearchResult list \<Rightarrow> int option
     \<Rightarrow> SearchResult list \<times> ReRanker" where
  "rerank E rr q results n0 =
     (let n = int_or n0 (top_n rr)
      in if results = [] then ([], rr)
         else (case get_ranker E rr of
                 Inl e \<Rightarrow> (slice_to n results, rr)
               | Inr rr1 \<Rightarrow>
                   (case ranker_rerank E q (map passage_of results) of
                      Inl e \<Rightarrow> (slice_to n results, rr1)
                    | Inr reranked \<Rightarrow> (map result_of (slice_to n reranked), rr1))))"

section \<open>Query expander\<close>

record QueryExpander =
  model :: str

definition QueryExpander_init :: "settings \<Rightarrow> QueryExpander" where
  "QueryExpander_init cfg = \<lparr>model = OPENAI_CHAT_MODEL cfg\<rparr>"

definition hyde_prompt :: str where
  "hyde_prompt =
     S ''Given the question, write a short hypothetical passage ''
     @ S ''that would answer this question in the context of a ''
     @ S ''legal contract. The passage should sound like it comes ''
     @ S ''from an actual contract clause.''"

definition multi_query_prompt :: str where
  "multi_query_prompt =
     S ''Generate 3 alternative versions of this question that ''
     @ S ''could help retrieve relevant information from a legal ''
     @ S ''contract. Each version should approach the question from ''
     @ S ''a different angle.'' @ [10, 10]
     @ S ''Return only the 3 questions, one per line.''"

definition translate_prompt :: "str \<Rightarrow> str" where
  "translate_prompt target_language =
     S ''Translate the following text to '' @ target_language @ S ''. ''
     @ S ''Keep legal terminology accurate. ''
     @ S ''Return only the translation, nothing else.''"

definition detect_prompt :: str where
  "detect_prompt =
     S ''Detect the language of this text. Reply with only the language name in English (e.g. 'English', 'Slovak', 'Russian').''"

text \<open>\<open>QueryExpander.hyde\<close>.\<close>

definition hyde :: "env \<Rightarrow> QueryExpander \<Rightarrow> str \<Rightarrow> error + str" where
  "hyde E qe q =
     (case chat_create E (model qe) hyde_prompt q (7 / 10) 200 of
        Inl e \<Rightarrow> Inl e
      | Inr content \<Rightarrow> Inr (str_or content []))"

text \<open>\<open>QueryExpander.multi_query\<close>.\<close>

definition multi_query :: "env \<Rightarrow> QueryExpander \<Rightarrow> str \<Rightarrow> error + str list" where
  "multi_query E qe q =
     (case chat_create E (model qe) multi_query_prompt q (7 / 10) 300 of
        Inl e \<Rightarrow> Inl e
      | Inr content \<Rightarrow>
          (let t = str_or content [];
               queries = map (\<lambda>l. lstrip (S ''0123456789.-) '') (strip E l))
                           (filter (\<lambda>l. strip E l \<noteq> []) (split_lines (strip E t)))
           in Inr (slice_to 3 queries)))"

text \<open>\<open>QueryExpander.translate_query\<close>.\<close>

definition translate_query :: "env \<Rightarrow> QueryExpander \<Rightarrow> str \<Rightarrow> str \<Rightarrow> error + str" where
  "translate_query E qe q target_language =
     (case chat_create E (model qe) (translate_prompt target_language) q 0 300 of
        Inl e \<Rightarrow> Inl e
      | Inr content \<Rightarrow> Inr (strip E (str_or content q)))"

text \<open>\<open>QueryExpander.expand\<close>.\<close>

definition expand :: "env \<Rightarrow> QueryExpander \<Rightarrow> str \<Rightarrow> bool \<Rightarrow> bool \<Rightarrow> error + str list" where
  "expand E qe q use_hyde use_multi =
     (case (if use_hyde
            then (case hyde E qe q of Inl e \<Rightarrow> Inl e | Inr h \<Rightarrow> Inr ([q] @ [h]))
            else Inr [q]) of
        Inl e \<Rightarrow> Inl e
      | Inr queries \<Rightarrow>
          if use_multi
          then (case multi_query E qe q of
                  Inl e \<Rightarrow> Inl e
                | Inr ms \<Rightarrow> Inr (queries @ ms))
          else Inr queries)"

section \<open>Retrieval orchestrator\<close>

record RetrievalResult =
  results :: "SearchResult list"
  expanded_queries :: "str list"
  latency_ms :: real
  total_candidates :: nat
  parent_context :: "(meta_value \<times> str) list"

record Retriever =
  hybrid_search :: HybridSearch
  reranker :: "ReRanker option"
  query_expander :: "QueryExpander option"
  use_query_translation :: bool

text \<open>\<open>Retriever.__init__\<close>.\<close>

definition Retriever_init :: "settings \<Rightarrow> bool \<Rightarrow> bool \<Rightarrow> bool \<Rightarrow> Retriever" where
  "Retriever_init cfg use_reranking use_query_expansion use_translation =
     \<lparr>hybrid_search = HybridSearch_init cfg,
      reranker = (if use_reranking then Some (ReRanker_init cfg) else None),
      query_expander = (if use_query_expansion \<or> use_translation
                        then Some (QueryExpander_init cfg) else None),
      use_query_translation = use_translation\<rparr>"

text \<open>Truth value of a metadata value: \<open>""\<close> and \<open>0\<close> are falsy.\<close>

definition truthy :: "meta_value \<Rightarrow> bool" where
  "truthy v = (case v of MStr s \<Rightarrow> s \<noteq> [] | MInt n \<Rightarrow> n \<noteq> 0)"

text \<open>
  \<open>Retriever._get_parent_context\<close>. The parent ids form a Python set, whose iteration
  order the language leaves open; here they are taken in the order of \<open>remdups\<close>.
\<close>

definition parent_ids_of :: "SearchResult list \<Rightarrow> meta_value list" where
  "parent_ids_of rs =
     remdups (concat (map (\<lambda>r. case map_of (metadata r) (S ''parent_id'') of
                                  Some pid \<Rightarrow> if truthy pid then [pid] else []
                                | None \<Rightarrow> []) rs))"

fun fetch_parents ::
  "env \<Rightarrow> meta_value list \<Rightarrow> (meta_value \<times> str) list \<Rightarrow> (meta_value \<times> str) list" where
  "fetch_parents E [] ctx = ctx"
| "fetch_parents E (pid # pids) ctx =
     (case parent_collection_get E pid of
        Inl e \<Rightarrow> fetch_parents E pids ctx
      | Inr docs \<Rightarrow>
          if docs \<noteq> [] then fetch_parents E pids (AList.update pid (hd docs) ctx)
          else fetch_parents E pids ctx)"

definition get_parent_context ::
  "env \<Rightarrow> SearchResult list \<Rightarrow> error + (meta_value \<times> str) list" where
  "get_parent_context E rs =
     (let parent_ids = parent_ids_of rs
      in if parent_ids = [] then Inr []
         else (case open_parent_collection E of
                 Inl e \<Rightarrow> Inl e
               | Inr u \<Rightarrow> Inr (fetch_parents E parent_ids [])))"

text \<open>\<open>Retriever._detect_doc_language\<close>: the whole body runs inside \<open>try\<close>.\<close>

definition detect_doc_language :: "env \<Rightarrow> Retriever \<Rightarrow> str option" where
  "detect_doc_language E R =
     (case collection_peek E 1 of
        Inl e \<Rightarrow> None
      | Inr sample \<Rightarrow>
          if get_documents sample = [] then None
          else (let t = slice_to 200 (hd (get_documents sample));
                    total_alpha = length (filter (isalpha E) t)
                in if total_alpha = 0 then None
                   else (case query_expander R of
                           None \<Rightarrow> None
                         | Some qe \<Rightarrow>
                             (case chat_create E (model qe) detect_prompt t 0 10 of
                                Inl e \<Rightarrow> None
                              | Inr content \<Rightarrow> Some (strip E (str_or content []))))))"

text \<open>\<open>Retriever._detect_query_language\<close>.\<close>

definition detect_query_language :: "env \<Rightarrow> str \<Rightarrow> str option" where
  "detect_query_language E q =
     (let cyrillic = length (filter (\<lambda>c. 1024 \<le> c \<and> c \<le> 1279) q);
          latin = length (filter (\<lambda>c. isalpha E c \<and> c < 256) q)
      in if cyrillic > latin then Some (S ''Russian'')
         else if latin > 0 then None
         else None)"

text \<open>Step 0 of \<open>Retriever.retrieve\<close>: the query to search with.\<close>

definition translation_step :: "env \<Rightarrow> Retriever \<Rightarrow> str \<Rightarrow> error + str" where
  "translation_step E R q =
     (if use_query_translation R
      then (case query_expander R of
              None \<Rightarrow> Inr q
            | Some qe \<Rightarrow>
                (case detect_query_language E q of
                   None \<Rightarrow> Inr q
                 | Some query_lang \<Rightarrow>
                     if query_lang = [] then Inr q
                     else (case detect_doc_language E R of
                             None \<Rightarrow> Inr q
                           | Some doc_lang \<Rightarrow>
                               if doc_lang \<noteq> [] \<and> lower E doc_lang \<noteq> lower E query_lang
                               then translate_query E qe q doc_lang
                               else Inr q)))
      else Inr q)"

text \<open>Step 1: the query variants.\<close>

definition expansion_step ::
  "env \<Rightarrow> Retriever \<Rightarrow> str \<Rightarrow> bool \<Rightarrow> bool \<Rightarrow> error + str list" where
  "expansion_step E R search_query use_hyde use_multi_query =
     (case query_expander R of
        None \<Rightarrow> Inr [search_query]
      | Some qe \<Rightarrow>
          if use_hyde \<or> use_multi_query
          then expand E qe search_query use_hyde use_multi_query
          else Inr [search_query])"

text \<open>Step 2: one hybrid search per variant, merged into \<open>all_results\<close> by chunk id.\<close>

type_synonym all_results = "(str \<times> SearchResult) list"

definition keep_best :: "SearchResult \<Rightarrow> all_results \<Rightarrow> all_results" where
  "keep_best r all =
     (case map_of all (chunk_id r) of
        None \<Rightarrow> AList.update (chunk_id r) r all
      | Some old \<Rightarrow> if score r > score old then AList.update (chunk_id r) r all else all)"

fun search_all ::
  "settings \<Rightarrow> env \<Rightarrow> HybridSearch \<Rightarrow> int \<Rightarrow> str list \<Rightarrow> all_results
     \<Rightarrow> error + all_results \<times> HybridSearch" where
  "search_all cfg E hs k [] all = Inr (all, hs)"
| "search_all cfg E hs k (q # qs) all =
     (case search cfg E hs q (Some (k * 2)) of
        Inl e \<Rightarrow> Inl e
      | Inr (rs, hs1) \<Rightarrow> search_all cfg E hs1 k qs (fold keep_best rs all))"

text \<open>The result sets that the searches of step 2 return, one per variant, in order.\<close>

fun variant_results ::
  "settings \<Rightarrow> env \<Rightarrow> HybridSearch \<Rightarrow> int \<Rightarrow> str list \<Rightarrow> error + SearchResult list list" where
  "variant_results cfg E hs k [] = Inr []"
| "variant_results cfg E hs k (q # qs) =
     (case search cfg E hs q (Some (k * 2)) of
        Inl e \<Rightarrow> Inl e
      | Inr (rs, hs1) \<Rightarrow>
          (case variant_results cfg E hs1 k qs of
             Inl e \<Rightarrow> Inl e
           | Inr rss \<Rightarrow> Inr (rs # rss)))"

text \<open>Step 3: rerank against the caller's query, or cut the fused ranking.\<close>

definition rerank_step ::
  "env \<Rightarrow> Retriever \<Rightarrow> str \<Rightarrow> SearchResult list \<Rightarrow> int
     \<Rightarrow> SearchResult list \<times> ReRanker option" where
  "rerank_step E R q candidates k =
     (case reranker R of
        None \<Rightarrow> (slice_to k candidates, None)
      | Some rr \<Rightarrow>
          if candidates \<noteq> []
          then (case rerank E rr q candidates (Some k) of (rs, rr1) \<Rightarrow> (rs, Some rr1))
          else (slice_to k candidates, Some rr))"

text \<open>
  Steps 1 to 4 of \<open>Retriever.retrieve\<close>, for the caller's query \<open>q\<close> and the query to
  search with. The result comes together with the retriever, whose lexical index and
  reranker model may have been loaded on the way.
\<close>

definition search_and_rank ::
  "settings \<Rightarrow> env \<Rightarrow> Retriever \<Rightarrow> str \<Rightarrow> str \<Rightarrow> int \<Rightarrow> real \<Rightarrow> bool \<Rightarrow> bool
     \<Rightarrow> error + RetrievalResult \<times> Retriever" where
  "search_and_rank cfg E R q search_query k start use_hyde use_multi_query =
     (case expansion_step E R search_query use_hyde use_multi_query of
        Inl e \<Rightarrow> Inl e
      | Inr queries \<Rightarrow>
          (case search_all cfg E (hybrid_search R) k queries [] of
             Inl e \<Rightarrow> Inl e
           | Inr (all, hs1) \<Rightarrow>
               (let candidates = sort_by_score (map snd all);
                    total = length candidates
                in case rerank_step E R q candidates k of
                     (rs, rr1) \<Rightarrow>
                       (case get_parent_context E rs of
                          Inl e \<Rightarrow> Inl e
                        | Inr ctx \<Rightarrow>
                            Inr (\<lparr>results = rs, expanded_queries = queries,
                                  latency_ms = (perf_counter E 1 - start) * 1000,
                                  total_candidates = total,
                                  parent_context = ctx\<rparr>,
                                 R\<lparr>hybrid_search := hs1, reranker := rr1\<rparr>)))))"

text \<open>\<open>Retriever.retrieve\<close>.\<close>

definition retrieve ::
  "settings \<Rightarrow> env \<Rightarrow> Retriever \<Rightarrow> str \<Rightarrow> int option \<Rightarrow> bool \<Rightarrow> bool
     \<Rightarrow> error + RetrievalResult \<times> Retriever" where
  "retrieve cfg E R q k0 use_hyde use_multi_query =
     (let start = perf_counter E 0;
          k = int_or k0 (RETRIEVAL_TOP_K cfg)
      in case translation_step E R q of
           Inl e \<Rightarrow> Inl e
         | Inr search_query \<Rightarrow>
             search_and_rank cfg E R q search_query k start use_hyde use_multi_query)"

section \<open>Chunker\<close>

record DocumentPage =
  page_text :: str
  page_number :: int
  page_metadata :: metadata

record LoadedDocument =
  pages :: "DocumentPage list"
  filename :: str
  file_type :: str
  total_pages :: int

record Chunk =
  chunk_id_c :: str
  text_c :: str
  metadata_c :: metadata
  parent_id :: "str option"

record ChunkedDocument =
  parent_chunks :: "Chunk list"
  child_chunks :: "Chunk list"
  filename_c :: str

definition separators :: "str list" where
  "separators = [[10, 10], [10], S ''. '', S '' '', []]"

definition parent_splitter :: "settings \<Rightarrow> env \<Rightarrow> str \<Rightarrow> str list" where
  "parent_splitter cfg E = split_text E (CHUNK_SIZE cfg * 3) (CHUNK_OVERLAP cfg * 2) separators"

definition child_splitter :: "settings \<Rightarrow> env \<Rightarrow> str \<Rightarrow> str list" where
  "child_splitter cfg E = split_text E (CHUNK_SIZE cfg) (CHUNK_OVERLAP cfg) separators"

definition parent_metadata :: "DocumentPage \<Rightarrow> str \<Rightarrow> metadata" where
  "parent_metadata page fname =
     AList.update (S ''filename'') (MStr fname)
       (AList.update (S ''chunk_type'') (MStr (S ''parent'')) (page_metadata page))"

definition child_metadata :: "DocumentPage \<Rightarrow> str \<Rightarrow> str \<Rightarrow> metadata" where
  "child_metadata page fname pid =
     AList.update (S ''filename'') (MStr fname)
       (AList.update (S ''parent_id'') (MStr pid)
          (AList.update (S ''chunk_type'') (MStr (S ''child'')) (page_metadata page)))"

text \<open>
  The loops of \<open>chunk_document\<close>. The number threaded through counts the calls of
  \<open>uuid4\<close> made so far; the \<open>n\<close>-th call returns \<open>uuid4 E n\<close>.
\<close>

fun children_of ::
  "env \<Rightarrow> DocumentPage \<Rightarrow> str \<Rightarrow> str \<Rightarrow> str list \<Rightarrow> nat \<Rightarrow> Chunk list \<times> nat" where
  "children_of E page fname pid [] n = ([], n)"
| "children_of E page fname pid (child_text # ts) n =
     (let c = \<lparr>chunk_id_c = uuid4 E n, text_c = child_text,
                metadata_c = child_metadata page fname pid, parent_id = Some pid\<rparr>
      in case children_of E page fname pid ts (Suc n) of (cs, n1) \<Rightarrow> (c # cs, n1))"

fun parents_of ::
  "settings \<Rightarrow> env \<Rightarrow> DocumentPage \<Rightarrow> str \<Rightarrow> str list \<Rightarrow> nat
     \<Rightarrow> Chunk list \<times> Chunk list \<times> nat" where
  "parents_of cfg E page fname [] n = ([], [], n)"
| "parents_of cfg E page fname (parent_text # ts) n =
     (let pid = uuid4 E n;
          p = \<lparr>chunk_id_c = pid, text_c = parent_text,
                metadata_c = parent_metadata page fname, parent_id = None\<rparr>
      in case children_of E page fname pid (child_splitter cfg E parent_text) (Suc n) of
           (cs, n1) \<Rightarrow>
             (case parents_of cfg E page fname ts n1 of
                (ps, cs', n2) \<Rightarrow> (p # ps, cs @ cs', n2)))"

fun pages_of ::
  "settings \<Rightarrow> env \<Rightarrow> str \<Rightarrow> DocumentPage list \<Rightarrow> nat \<Rightarrow> Chunk list \<times> Chunk list \<times> nat" where
  "pages_of cfg E fname [] n = ([], [], n)"
| "pages_of cfg E fname (page # ps) n =
     (case parents_of cfg E page fname (parent_splitter cfg E (page_text page)) n of
        (parents, children, n1) \<Rightarrow>
          (case pages_of cfg E fname ps n1 of
             (parents', children', n2) \<Rightarrow> (parents @ parents', children @ children', n2)))"

text \<open>\<open>chunk_document\<close>.\<close>

definition chunk_document ::
  "settings \<Rightarrow> env \<Rightarrow> LoadedDocument \<Rightarrow> nat \<Rightarrow> ChunkedDocument \<times> nat" where
  "chunk_document cfg E document n =
     (case pages_of cfg E (filename document) (pages document) n of
        (parents, children, n1) \<Rightarrow>
          (\<lparr>parent_chunks = parents, child_chunks = children,
            filename_c = filename document\<rparr>, n1))"

section \<open>Notions used to state the properties\<close>

text \<open>
  The score a result set gives to a chunk id: that of its entry with this id (the last
  one, should an id occur twice), and \<open>0.0\<close> when the id is not in the set.
\<close>

definition score_in :: "SearchResult list \<Rightarrow> str \<Rightarrow> real" where
  "score_in rs cid =
     (case find (\<lambda>r. chunk_id r = cid) (rev rs) of None \<Rightarrow> 0 | Some r \<Rightarrow> score r)"

text \<open>The scores observed for a chunk id in a sequence of results.\<close>

definition scores_seen :: "SearchResult list \<Rightarrow> str \<Rightarrow> real set" where
  "scores_seen rs cid = score ` {x \<in> set rs. chunk_id x = cid}"

text \<open>
  Loop invariants: of the two merging loops of \<open>HybridSearch.search\<close>, after the vector
  results \<open>vr\<close> and the lexical results \<open>br\<close> seen so far; and of the merging loop of
  \<open>Retriever.retrieve\<close>, after the results \<open>rs\<close> seen so far.
\<close>

definition fuse_inv :: "SearchResult list \<Rightarrow> SearchResult list \<Rightarrow> score_map \<Rightarrow> bool" where
  "fuse_inv vr br m \<longleftrightarrow>
     distinct (map fst m)
     \<and> fst ` set m = chunk_id ` set vr \<union> chunk_id ` set br
     \<and> (\<forall>cid d. map_of m cid = Some d \<longrightarrow>
           vector_score d = score_in vr cid \<and> bm25_score d = score_in br cid)"

definition best_inv :: "SearchResult list \<Rightarrow> all_results \<Rightarrow> bool" where
  "best_inv rs all \<longleftrightarrow>
     distinct (map fst all)
     \<and> fst ` set all = chunk_id ` set rs
     \<and> (\<forall>cid r. map_of all cid = Some r \<longrightarrow>
           r \<in> set rs \<and> chunk_id r = cid
           \<and> score r = Max (scores_seen rs cid))"

section \<open>Settings and example collaborators\<close>

text \<open>The defaults of \<open>config/settings.py\<close>.\<close>

definition default_settings :: settings where
  "default_settings =
     \<lparr>CHUNK_SIZE = 512, CHUNK_OVERLAP = 50, RETRIEVAL_TOP_K = 5, HYBRID_ALPHA = 6 / 10,
      RERANKER_MODEL = S ''rank-T5-flan'', RERANKER_TOP_N = 3,
      OPENAI_CHAT_MODEL = S ''gpt-4o-mini''\<rparr>"

text \<open>
  A small world to run the code in: an empty collection, a chat model that answers
  nothing, a lexical scorer that counts the query words in a document, a ranker that
  reverses its passages and scores each with the length of the query it was given, a
  splitter that cuts parents at newlines and children at spaces, and ids \<open>id0\<close>,
  \<open>id1\<close>, ...
\<close>

definition no_docs :: get_result where
  "no_docs = \<lparr>get_ids = [], get_documents = [], get_metadatas = []\<rparr>"

definition no_hits :: query_result where
  "no_hits = \<lparr>q_ids = [[]], q_documents = [[]], q_metadatas = [[]], q_distances = [[]]\<rparr>"

definition ex_env :: env where
  "ex_env =
     \<lparr>isalpha = (\<lambda>c. (65 \<le> c \<and> c \<le> 90) \<or> (97 \<le> c \<and> c \<le> 122) \<or> (1024 \<le> c \<and> c \<le> 1279)),
      isspace = (\<lambda>c. c = 32 \<or> (9 \<le> c \<and> c \<le> 13)),
      lower = map (\<lambda>c. if 65 \<le> c \<and> c \<le> 90 then c + 32 else c),
      collection_get = Inr no_docs,
      collection_peek = (\<lambda>limit. Inr no_docs),
      collection_query = (\<lambda>embedding n. Inr no_hits),
      open_parent_collection = Inr (),
      parent_collection_get = (\<lambda>pid. Inr []),
      embed_query = (\<lambda>q. Inr []),
      chat_create = (\<lambda>m sys usr temperature max_tokens. Inr None),
      bm25_get_scores = (\<lambda>index q. map (\<lambda>d. real (length (filter (\<lambda>w. w \<in> set q) d))) index),
      Ranker = (\<lambda>m. Inr ()),
      ranker_rerank = (\<lambda>q ps. Inr (map (\<lambda>p. \<lparr>r_id = p_id p, r_text = p_text p,
                                                  r_meta = p_meta p,
                                                  r_score = real (length q)\<rparr>) (rev ps))),
      split_text = (\<lambda>size overlap seps t.
                      filter (\<lambda>w. w \<noteq> []) (split_on (\<lambda>c. c = (if size > 512 then 10 else 32)) t)),
      uuid4 = (\<lambda>n. S ''id'' @ [48 + n]),
      perf_counter = (\<lambda>n. real n)\<rparr>"

definition ex_document :: LoadedDocument where
  "ex_document =
     \<lparr>pages = [\<lparr>page_text = S ''a b'' @ [10] @ S ''c'', page_number = 1,
                 page_metadata = [(S ''page'', MInt 1)]\<rparr>],
      filename = S ''t.pdf'', file_type = S ''pdf'', total_pages = 1\<rparr>"

text \<open>
  The same world with two stored chunks \<open>X\<close> and \<open>Y\<close> of one parent \<open>P1\<close>, a vector
  index that always finds \<open>X\<close> nearer than \<open>Y\<close>, and a chat model that detects English,
  translates every query to \<open>notice\<close>, and expands with \<open>secrets\<close>, \<open>trade\<close> and
  \<open>period\<close>. The chat model tells its four kinds of request apart by their
  \<open>max_tokens\<close> and \<open>temperature\<close>.
\<close>

definition ex_corpus :: get_result where
  "ex_corpus =
     \<lparr>get_ids = [S ''X'', S ''Y''],
      get_documents = [S ''notice period'', S ''trade secrets''],
      get_metadatas = [[(S ''parent_id'', MStr (S ''P1''))],
                       [(S ''parent_id'', MStr (S ''P1''))]]\<rparr>"

definition ex_hits :: query_result where
  "ex_hits =
     \<lparr>q_ids = [get_ids ex_corpus], q_documents = [get_documents ex_corpus],
      q_metadatas = [get_metadatas ex_corpus], q_distances = [[1 / 10, 1 / 2]]\<rparr>"

definition ex_env_docs :: env where
  "ex_env_docs =
     ex_env\<lparr>collection_get := Inr ex_corpus,
             collection_peek := (\<lambda>limit. Inr ex_corpus),
             collection_query := (\<lambda>embedding n. Inr ex_hits),
             parent_collection_get :=
               (\<lambda>pid. if pid = MStr (S ''P1'') then Inr [S ''notice period trade secrets'']
                      else Inr []),
             chat_create :=
               (\<lambda>m sys usr temperature max_tokens.
                  if max_tokens = 10 then Inr (Some (S ''English''))
                  else if max_tokens = 200 then Inr (Some (S ''secrets''))
                  else if temperature = 0 then Inr (Some (S ''notice''))
                  else Inr (Some (S ''1. trade'' @ [10] @ S ''2. period'')))\<rparr>"

definition ex_X :: "real \<Rightarrow> SearchResult" where
  "ex_X s = \<lparr>chunk_id = S ''X'', text' = S ''notice period'', score = s,
             metadata = [(S ''parent_id'', MStr (S ''P1''))]\<rparr>"

definition ex_Y :: "real \<Rightarrow> SearchResult" where
  "ex_Y s = \<lparr>chunk_id = S ''Y'', text' = S ''trade secrets'', score = s,
             metadata = [(S ''parent_id'', MStr (S ''P1''))]\<rparr>"

text \<open>The search object once the lexical index over the two chunks is built.\<close>

definition ex_index :: HybridSearch where
  "ex_index =
     (HybridSearch_init default_settings)
       \<lparr>corpus_ids := get_ids ex_corpus, corpus_texts := get_documents ex_corpus,
        corpus_meta := get_metadatas ex_corpus,
        bm25 := Some [[S ''notice'', S ''period''], [S ''trade'', S ''secrets'']]\<rparr>"

text \<open>A query in Cyrillic script, and collaborators that are out of reach.\<close>

definition ex_query_ru :: str where
  "ex_query_ru = [1089, 1088, 1086, 1082]"

definition timeout :: error where
  "timeout = ExternalError (S ''timeout'')"

definition ex_env_ranker_down :: env where
  "ex_env_ranker_down = ex_env_docs\<lparr>Ranker := (\<lambda>m. Inl timeout)\<rparr>"

definition ex_env_chat_down :: env where
  "ex_env_chat_down =
     ex_env_docs\<lparr>chat_create := (\<lambda>m sys usr temperature max_tokens. Inl timeout)\<rparr>"

definition ex_env_peek_down :: env where
  "ex_env_peek_down = ex_env_docs\<lparr>collection_peek := (\<lambda>limit. Inl timeout)\<rparr>"

definition ex_env_translate_down :: env where
  "ex_env_translate_down =
     ex_env_docs\<lparr>chat_create :=
                   (\<lambda>m sys usr temperature max_tokens.
                      if max_tokens = 10 then Inr (Some (S ''English'')) else Inl timeout)\<rparr>"

section \<open>Properties of score normalisation\<close>

lemma fold_min_Min: "fold min xs (x::real) = Min (insert x (set xs))"
proof (induction xs arbitrary: x)
  case Nil
  show ?case by simp
next
  case (Cons y ys)
  have "fold min (y # ys) x = Min (insert (min y x) (set ys))"
    using Cons.IH [of "min y x"] by simp
  also have "\<dots> = Min (insert x (set (y # ys)))"
  proof (cases "set ys = {}")
    case True
    then show ?thesis by (simp add: min.commute)
  next
    case False
    then show ?thesis by (simp add: min.commute min.left_commute min.assoc)
  qed
  finally show ?case .
qed

lemma fold_max_Max: "fold max xs (x::real) = Max (insert x (set xs))"
proof (induction xs arbitrary: x)
  case Nil
  show ?case by simp
next
  case (Cons y ys)
  have "fold max (y # ys) x = Max (insert (max y x) (set ys))"
    using Cons.IH [of "max y x"] by simp
  also have "\<dots> = Max (insert x (set (y # ys)))"
  proof (cases "set ys = {}")
    case True
    then show ?thesis by (simp add: max.commute)
  next
    case False
    then show ?thesis by (simp add: max.commute max.left_commute max.assoc)
  qed
  finally show ?case .
qed

lemma arr_min_Min: "scores \<noteq> [] \<Longrightarrow> arr_min scores = Min (set scores)"
  by (cases scores) (simp_all add: fold_min_Min)

lemma arr_max_Max: "scores \<noteq> [] \<Longrightarrow> arr_max scores = Max (set scores)"
  by (cases scores) (simp_all add: fold_max_Max)

lemma arr_min_le: "s \<in> set scores \<Longrightarrow> arr_min scores \<le> s"
  by (cases "scores = []") (simp_all add: arr_min_Min)

lemma arr_max_ge: "s \<in> set scores \<Longrightarrow> s \<le> arr_max scores"
  by (cases "scores = []") (simp_all add: arr_max_Max)

lemma normalize_scores_range:
  assumes "s \<in> set (normalize_scores xs)"
  shows "0 \<le> s \<and> s \<le> 1"
proof (cases "xs = []")
  case True
  with assms show ?thesis by (simp add: normalize_scores_def)
next
  case False
  show ?thesis
  proof (cases "arr_max xs - arr_min xs = 0")
    case True
    with assms False show ?thesis by (auto simp: normalize_scores_def Let_def)
  next
    case spread: False
    from assms False spread obtain x where x: "x \<in> set xs"
      and s: "s = (x - arr_min xs) / (arr_max xs - arr_min xs)"
      by (auto simp: normalize_scores_def Let_def)
    have lo: "arr_min xs \<le> x" and hi: "x \<le> arr_max xs"
      using x by (rule arr_min_le, rule arr_max_ge)
    then have pos: "0 < arr_max xs - arr_min xs" using spread by linarith
    have "0 \<le> s" unfolding s using lo pos by simp
    moreover have "s \<le> 1" unfolding s using hi pos by (simp add: divide_le_eq_1)
    ultimately show ?thesis by simp
  qed
qed

text \<open>
  C1. Score normalisation is min-max normalisation: the empty list is returned as it is;
  a non-empty list whose maximum equals its minimum becomes all \<open>1.0\<close>; a non-empty list
  whose maximum exceeds its minimum has every score \<open>s\<close> mapped to
  \<open>(s - min) / (max - min)\<close>; and \<open>[0.1, 0.5, 0.9]\<close> becomes \<open>[0.0, 0.5, 1.0]\<close>. Every
  normalised score lies in \<open>[0, 1]\<close>.
\<close>

theorem C1_normalize_scores_min_max:
  "normalize_scores [] = []
   \<and> (scores \<noteq> [] \<and> Max (set scores) = Min (set scores)
        \<longrightarrow> normalize_scores scores = replicate (length scores) 1)
   \<and> (scores \<noteq> [] \<and> Min (set scores) < Max (set scores)
        \<longrightarrow> normalize_scores scores =
              map (\<lambda>s. (s - Min (set scores)) / (Max (set scores) - Min (set scores))) scores)
   \<and> normalize_scores [1 / 10, 1 / 2, 9 / 10] = [0, 1 / 2, 1]
   \<and> (\<forall>s \<in> set (normalize_scores scores). 0 \<le> s \<and> s \<le> 1)"
proof -
  have empty: "normalize_scores [] = []"
    by (simp add: normalize_scores_def)
  have tied: "normalize_scores scores = replicate (length scores) 1"
    if "scores \<noteq> []" "Max (set scores) = Min (set scores)"
    using that by (simp add: normalize_scores_def Let_def arr_min_Min arr_max_Max)
  have spread: "normalize_scores scores =
      map (\<lambda>s. (s - Min (set scores)) / (Max (set scores) - Min (set scores))) scores"
    if "scores \<noteq> []" "Min (set scores) < Max (set scores)"
    using that by (simp add: normalize_scores_def Let_def arr_min_Min arr_max_Max)
  have example: "normalize_scores [1 / 10, 1 / 2, 9 / 10] = [0, 1 / 2, 1]"
    by (simp add: normalize_scores_def Let_def)
  have range: "\<forall>s \<in> set (normalize_scores scores). 0 \<le> s \<and> s \<le> 1"
    using normalize_scores_range by blast
  from empty tied spread example range show ?thesis by blast
qed

theorem C1_normalize_scores_min_max_witness:
  "[2, 2, 2 :: real] \<noteq> [] \<and> Max (set [2, 2, 2 :: real]) = Min (set [2, 2, 2])
   \<and> normalize_scores [2, 2, 2] = [1, 1, 1]
   \<and> [1, 3, 2 :: real] \<noteq> [] \<and> Min (set [1, 3, 2 :: real]) < Max (set [1, 3, 2])
   \<and> normalize_scores [1, 3, 2] = [0, 1, 1 / 2]
   \<and> list_all (\<lambda>s. 0 \<le> s \<and> s \<le> 1) (normalize_scores [1, 3, 2])"
  using C1_normalize_scores_min_max [of "[2, 2, 2]"]
        C1_normalize_scores_min_max [of "[1, 3, 2]"]
  by (simp add: numeral_3_eq_3)

section \<open>The example collaborators at work\<close>

lemma ex_env_docs_chars:
  "isspace ex_env_docs = (\<lambda>c. c = 32 \<or> (9 \<le> c \<and> c \<le> 13))"
  "isalpha ex_env_docs = (\<lambda>c. (65 \<le> c \<and> c \<le> 90) \<or> (97 \<le> c \<and> c \<le> 122) \<or> (1024 \<le> c \<and> c \<le> 1279))"
  "lower ex_env_docs = map (\<lambda>c. if 65 \<le> c \<and> c \<le> 90 then c + 32 else c)"
  by (simp_all add: ex_env_docs_def ex_env_def)

lemma ex_env_docs_fields:
  "collection_get ex_env_docs = Inr ex_corpus"
  "collection_peek ex_env_docs = (\<lambda>limit. Inr ex_corpus)"
  "collection_query ex_env_docs = (\<lambda>embedding n. Inr ex_hits)"
  "embed_query ex_env_docs = (\<lambda>q. Inr [])"
  "open_parent_collection ex_env_docs = Inr ()"
  "bm25_get_scores ex_env_docs = (\<lambda>index q. map (\<lambda>d. real (length (filter (\<lambda>w. w \<in> set q) d))) index)"
  "Ranker ex_env_docs = (\<lambda>m. Inr ())"
  "perf_counter ex_env_docs = (\<lambda>n. real n)"
  by (simp_all add: ex_env_docs_def ex_env_def)

lemma ex_tokens:
  "split ex_env_docs (lower ex_env_docs (S ''notice period'')) = [S ''notice'', S ''period'']"
  "split ex_env_docs (lower ex_env_docs (S ''trade secrets'')) = [S ''trade'', S ''secrets'']"
  "split ex_env_docs (lower ex_env_docs (S ''notice'')) = [S ''notice'']"
  "split ex_env_docs (lower ex_env_docs (S ''secrets'')) = [S ''secrets'']"
  by (simp_all add: ex_env_docs_chars split_def S_def)

lemma S_eq_iff: "S a = S b \<longleftrightarrow> a = b"
proof -
  have "inj (of_char :: char \<Rightarrow> nat)" by (rule inj_of_char)
  then show ?thesis by (simp add: S_def inj_map_eq_map)
qed

lemmas search_defs = search_def vector_search_def bm25_search_def build_bm25_index_def
      int_or_def slice_to_def item_def vector_result_def bm25_result_def normalize_scores_def
      argsort_def merge_by_id_def add_vector_def add_bm25_def combined_def sort_by_score_def Let_def enumerate_eq_zip

lemmas ex_objs = ex_corpus_def ex_hits_def ex_X_def ex_Y_def ex_index_def HybridSearch_init_def default_settings_def

lemma ex_vector_secrets: "vector_search ex_env_docs (S ''secrets'') 30 = Inr [ex_X 1, ex_Y 0]"
  by (simp add: ex_env_docs_fields ex_objs search_defs)

lemma ex_bm25_secrets: "bm25_search ex_env_docs (HybridSearch_init default_settings) (S ''secrets'') 30 = Inr ([ex_Y 1, ex_X 0], ex_index)"
  by (simp add: ex_env_docs_fields ex_tokens S_eq_iff ex_objs search_defs)

lemma ex_search_first: "search default_settings ex_env_docs (HybridSearch_init default_settings) (S ''notice'') (Some 10) = Inr ([ex_X 1, ex_Y 0], ex_index)"
  by (simp add: ex_env_docs_fields ex_tokens S_eq_iff ex_objs search_defs)

lemma ex_search_secrets: "search default_settings ex_env_docs ex_index (S ''secrets'') (Some 10) = Inr ([ex_X (3/5), ex_Y (2/5)], ex_index)"
  by (simp add: ex_env_docs_fields ex_tokens S_eq_iff ex_objs search_defs)

lemma ex_variants: "variant_results default_settings ex_env_docs (HybridSearch_init default_settings) 5 [S ''notice'', S ''secrets'']
   = Inr [[ex_X 1, ex_Y 0], [ex_X (3/5), ex_Y (2/5)]]"
  by (simp add: ex_search_first ex_search_secrets)

lemma ex_merge: "fold keep_best [ex_X (3/5), ex_Y (2/5)] (fold keep_best [ex_X 1, ex_Y 0] [])
   = [(S ''X'', ex_X 1), (S ''Y'', ex_Y (2/5))]"
  by (simp add: keep_best_def ex_X_def ex_Y_def S_eq_iff)

lemma ex_search_all: "search_all default_settings ex_env_docs (HybridSearch_init default_settings) 5 [S ''notice'', S ''secrets''] []
   = Inr ([(S ''X'', ex_X 1), (S ''Y'', ex_Y (2/5))], ex_index)"
  using ex_merge by (simp add: ex_search_first ex_search_secrets)

lemma ex_env_docs_calls:
  "chat_create ex_env_docs m sys usr t n =
     (if n = 10 then Inr (Some (S ''English''))
      else if n = 200 then Inr (Some (S ''secrets''))
      else if t = 0 then Inr (Some (S ''notice''))
      else Inr (Some (S ''1. trade'' @ [10] @ S ''2. period'')))"
  "ranker_rerank ex_env_docs q ps =
     Inr (map (\<lambda>p. \<lparr>r_id = p_id p, r_text = p_text p, r_meta = p_meta p,
                      r_score = real (length q)\<rparr>) (rev ps))"
  "parent_collection_get ex_env_docs pid =
     (if pid = MStr (S ''P1'') then Inr [S ''notice period trade secrets''] else Inr [])"
  by (simp_all add: ex_env_docs_def ex_env_def)

lemma S_Nil_iff: "S cs = [] \<longleftrightarrow> cs = []"
  by (simp add: S_def)

lemma ex_detect_query: "detect_query_language ex_env_docs ex_query_ru = Some (S ''Russian'')"
  by (simp add: detect_query_language_def ex_env_docs_chars ex_query_ru_def)

lemma ex_strip:
  "strip ex_env_docs (S ''English'') = S ''English''"
  "strip ex_env_docs (S ''notice'') = S ''notice''"
  by (simp_all add: strip_def ex_env_docs_chars S_def)

lemma ex_lower:
  "lower ex_env_docs (S ''English'') = S ''english''"
  "lower ex_env_docs (S ''Russian'') = S ''russian''"
  by (simp_all add: ex_env_docs_chars S_def)

lemma ex_sample:
  "slice_to 200 (S ''notice period'') = S ''notice period''"
  "filter (isalpha ex_env_docs) (S ''notice period'') \<noteq> []"
  by (simp_all add: ex_env_docs_chars slice_to_def S_def)

lemma Retriever_init_fields:
  "hybrid_search (Retriever_init cfg a b c) = HybridSearch_init cfg"
  "reranker (Retriever_init cfg a b c) = (if a then Some (ReRanker_init cfg) else None)"
  "query_expander (Retriever_init cfg a b c) = (if b \<or> c then Some (QueryExpander_init cfg) else None)"
  "use_query_translation (Retriever_init cfg a b c) = c"
  by (simp_all add: Retriever_init_def)

lemma ex_detect_doc: "detect_doc_language ex_env_docs (Retriever_init default_settings True True True) = Some (S ''English'')"
  by (simp add: detect_doc_language_def ex_env_docs_fields ex_env_docs_calls ex_corpus_def
      ex_sample Retriever_init_fields str_or_def ex_strip S_eq_iff S_Nil_iff Let_def)

lemma ex_translation:
  "translation_step ex_env_docs (Retriever_init default_settings True True True) ex_query_ru = Inr (S ''notice'')"
  by (simp add: translation_step_def ex_detect_query ex_detect_doc ex_lower S_eq_iff
      translate_query_def ex_env_docs_calls str_or_def ex_strip Retriever_init_fields S_Nil_iff)


lemma ex_search_one:
  "search_all default_settings ex_env_docs (HybridSearch_init default_settings) 5 [S ''notice''] []
     = Inr ([(S ''X'', ex_X 1), (S ''Y'', ex_Y 0)], ex_index)"
  by (simp add: ex_search_first keep_best_def) (simp add: ex_X_def ex_Y_def S_eq_iff)

lemma ex_candidates: "sort_by_score [ex_X 1, ex_Y 0] = [ex_X 1, ex_Y 0]"
  by (simp add: sort_by_score_def ex_X_def ex_Y_def)

lemma ex_rerank:
  "rerank ex_env_docs (ReRanker_init default_settings) ex_query_ru [ex_X 1, ex_Y 0] (Some 5)
     = ([ex_Y 4, ex_X 4], (ReRanker_init default_settings)\<lparr>ranker_loaded := True\<rparr>)"
  by (simp add: rerank_def get_ranker_def ReRanker_init_def ex_env_docs_fields ex_env_docs_calls
      int_or_def slice_to_def passage_of_def result_of_def ex_X_def ex_Y_def ex_query_ru_def Let_def)

lemma ex_parents:
  "get_parent_context ex_env_docs [ex_Y 4, ex_X 4] = Inr [(MStr (S ''P1''), S ''notice period trade secrets'')]"
  by (simp add: get_parent_context_def parent_ids_of_def truthy_def ex_X_def ex_Y_def S_Nil_iff
      ex_env_docs_fields ex_env_docs_calls Let_def)

lemma default_settings_fields:
  "RETRIEVAL_TOP_K default_settings = 5"
  "RERANKER_TOP_N default_settings = 3"
  "HYBRID_ALPHA default_settings = 6 / 10"
  by (simp_all add: default_settings_def)

lemma ex_retrieve:
  "retrieve default_settings ex_env_docs (Retriever_init default_settings True True True) ex_query_ru None False False
     = Inr (\<lparr>results = [ex_Y 4, ex_X 4], expanded_queries = [S ''notice''], latency_ms = 1000,
            total_candidates = 2,
            parent_context = [(MStr (S ''P1''), S ''notice period trade secrets'')]\<rparr>,
           (Retriever_init default_settings True True True)
             \<lparr>hybrid_search := ex_index,
              reranker := Some ((ReRanker_init default_settings)\<lparr>ranker_loaded := True\<rparr>)\<rparr>)"
  by (simp add: retrieve_def search_and_rank_def ex_translation expansion_step_def Retriever_init_fields
      ex_search_one ex_candidates rerank_step_def ex_rerank ex_parents ex_env_docs_fields int_or_def
      default_settings_fields Let_def del: search_all.simps)

section \<open>Properties of hybrid fusion\<close>

lemma score_in_Nil: "score_in [] cid = 0"
  by (simp add: score_in_def)

lemma score_in_snoc:
  "score_in (rs @ [x]) cid = (if chunk_id x = cid then score x else score_in rs cid)"
  by (simp add: score_in_def)

lemma score_in_absent: "cid \<notin> chunk_id ` set rs \<Longrightarrow> score_in rs cid = 0"
proof (induction rs rule: rev_induct)
  case Nil
  show ?case by (rule score_in_Nil)
next
  case (snoc x xs)
  then show ?case by (auto simp: score_in_snoc)
qed

lemma score_in_cases:
  "score_in rs cid = 0 \<or> (\<exists>r \<in> set rs. chunk_id r = cid \<and> score_in rs cid = score r)"
proof (induction rs rule: rev_induct)
  case Nil
  show ?case by (simp add: score_in_Nil)
next
  case (snoc x xs)
  then show ?case by (auto simp: score_in_snoc)
qed

lemma fuse_inv_Nil: "fuse_inv [] [] []"
  by (simp add: fuse_inv_def)

lemma fuse_inv_vector:
  assumes "fuse_inv vr [] m"
  shows "fuse_inv (vr @ [x]) [] (add_vector x m)"
proof -
  from assms have dist: "distinct (map fst m)"
    and keys: "fst ` set m = chunk_id ` set vr"
    and vals: "\<And>cid d. map_of m cid = Some d \<Longrightarrow>
                 vector_score d = score_in vr cid \<and> bm25_score d = score_in [] cid"
    by (simp_all add: fuse_inv_def)
  show ?thesis
    unfolding fuse_inv_def add_vector_def
  proof (intro conjI allI impI)
    show "distinct (map fst (AList.update (chunk_id x) \<lparr>e_text = text' x, e_metadata = metadata x,
            vector_score = score x, bm25_score = 0\<rparr> m))"
      using dist by (simp add: distinct_update)
    show "fst ` set (AList.update (chunk_id x) \<lparr>e_text = text' x, e_metadata = metadata x,
            vector_score = score x, bm25_score = 0\<rparr> m)
          = chunk_id ` set (vr @ [x]) \<union> chunk_id ` set []"
      using keys by (auto simp: dom_update)
  next
    fix cid d
    assume "map_of (AList.update (chunk_id x) \<lparr>e_text = text' x, e_metadata = metadata x,
            vector_score = score x, bm25_score = 0\<rparr> m) cid = Some d"
    then have "(cid = chunk_id x \<and> d = \<lparr>e_text = text' x, e_metadata = metadata x,
            vector_score = score x, bm25_score = 0\<rparr>) \<or> (cid \<noteq> chunk_id x \<and> map_of m cid = Some d)"
      by (auto simp: update_conv' split: if_splits)
    then show "vector_score d = score_in (vr @ [x]) cid" "bm25_score d = score_in [] cid"
      using vals [of cid d] by (auto simp: score_in_snoc score_in_Nil)
  qed
qed

lemma fuse_inv_bm25:
  assumes "fuse_inv vr br m"
  shows "fuse_inv vr (br @ [x]) (add_bm25 x m)"
proof -
  from assms have dist: "distinct (map fst m)"
    and keys: "fst ` set m = chunk_id ` set vr \<union> chunk_id ` set br"
    and vals: "\<And>cid d. map_of m cid = Some d \<Longrightarrow>
                 vector_score d = score_in vr cid \<and> bm25_score d = score_in br cid"
    by (simp_all add: fuse_inv_def)
  obtain d' where upd: "add_bm25 x m = AList.update (chunk_id x) d' m"
    and d': "vector_score d' = score_in vr (chunk_id x)" "bm25_score d' = score x"
  proof (cases "map_of m (chunk_id x)")
    case None
    then have "chunk_id x \<notin> fst ` set m" by (simp add: map_of_eq_None_iff)
    then have "chunk_id x \<notin> chunk_id ` set vr" using keys by simp
    then have "score_in vr (chunk_id x) = 0" by (rule score_in_absent)
    with None that [of "\<lparr>e_text = text' x, e_metadata = metadata x, vector_score = 0,
             bm25_score = score x\<rparr>"] show ?thesis
      by (simp add: add_bm25_def)
  next
    case (Some d)
    with vals [of "chunk_id x" d] that [of "d\<lparr>bm25_score := score x\<rparr>"] show ?thesis
      by (simp add: add_bm25_def)
  qed
  show ?thesis
    unfolding fuse_inv_def upd
  proof (intro conjI allI impI)
    show "distinct (map fst (AList.update (chunk_id x) d' m))"
      using dist by (simp add: distinct_update)
    show "fst ` set (AList.update (chunk_id x) d' m)
          = chunk_id ` set vr \<union> chunk_id ` set (br @ [x])"
      using keys by (auto simp: dom_update)
  next
    fix cid d
    assume "map_of (AList.update (chunk_id x) d' m) cid = Some d"
    then have "(cid = chunk_id x \<and> d = d') \<or> (cid \<noteq> chunk_id x \<and> map_of m cid = Some d)"
      by (auto simp: update_conv' split: if_splits)
    then show "vector_score d = score_in vr cid" "bm25_score d = score_in (br @ [x]) cid"
      using vals [of cid d] d' by (auto simp: score_in_snoc)
  qed
qed

lemma fuse_inv_fold_vector:
  "fuse_inv vr [] m \<Longrightarrow> fuse_inv (vr @ xs) [] (fold add_vector xs m)"
proof (induction xs arbitrary: vr m)
  case Nil
  then show ?case by simp
next
  case (Cons x xs)
  from Cons.IH [OF fuse_inv_vector [OF Cons.prems, of x]] show ?case by simp
qed

lemma fuse_inv_fold_bm25:
  "fuse_inv vr br m \<Longrightarrow> fuse_inv vr (br @ xs) (fold add_bm25 xs m)"
proof (induction xs arbitrary: br m)
  case Nil
  then show ?case by simp
next
  case (Cons x xs)
  from Cons.IH [OF fuse_inv_bm25 [OF Cons.prems, of x]] show ?case by simp
qed

lemma fuse_inv_merge_by_id: "fuse_inv vr br (merge_by_id vr br)"
proof -
  have "fuse_inv ([] @ vr) [] (fold add_vector vr [])"
    by (rule fuse_inv_fold_vector [OF fuse_inv_Nil])
  then have "fuse_inv vr ([] @ br) (fold add_bm25 br (fold add_vector vr []))"
    using fuse_inv_fold_bm25 [of vr "[]" "fold add_vector vr []" br] by simp
  then show ?thesis by (simp add: merge_by_id_def)
qed

lemma combined_ids: "map chunk_id (combined a m) = map fst m"
  by (induction m) (auto simp: combined_def)

lemma combined_score:
  assumes "distinct (map fst m)" and "r \<in> set (combined a m)"
  shows "\<exists>d. map_of m (chunk_id r) = Some d
             \<and> score r = a * vector_score d + (1 - a) * bm25_score d"
proof -
  from assms(2) obtain cid d where "(cid, d) \<in> set m" "chunk_id r = cid"
      "score r = a * vector_score d + (1 - a) * bm25_score d"
    by (auto simp: combined_def)
  moreover from this assms(1) have "map_of m cid = Some d" by simp
  ultimately show ?thesis by auto
qed

lemma fused_scores:
  "distinct (map chunk_id (combined a (merge_by_id vr br)))
   \<and> set (map chunk_id (combined a (merge_by_id vr br))) = chunk_id ` set vr \<union> chunk_id ` set br
   \<and> (\<forall>r \<in> set (combined a (merge_by_id vr br)).
         score r = a * score_in vr (chunk_id r) + (1 - a) * score_in br (chunk_id r))"
proof -
  note inv = fuse_inv_merge_by_id [of vr br]
  then have dist: "distinct (map fst (merge_by_id vr br))"
    and keys: "fst ` set (merge_by_id vr br) = chunk_id ` set vr \<union> chunk_id ` set br"
    and vals: "\<And>cid d. map_of (merge_by_id vr br) cid = Some d \<Longrightarrow>
                 vector_score d = score_in vr cid \<and> bm25_score d = score_in br cid"
    by (simp_all add: fuse_inv_def)
  have "score r = a * score_in vr (chunk_id r) + (1 - a) * score_in br (chunk_id r)"
    if "r \<in> set (combined a (merge_by_id vr br))" for r
    using combined_score [OF dist that] vals by auto
  with dist keys show ?thesis by (simp add: combined_ids)
qed

lemma search_Inr:
  assumes "search cfg E hs q k0 = Inr (rs, hs1)"
  shows "\<exists>vr br. vector_search E q (int_or k0 (RETRIEVAL_TOP_K cfg) * 3) = Inr vr
           \<and> bm25_search E hs q (int_or k0 (RETRIEVAL_TOP_K cfg) * 3) = Inr (br, hs1)
           \<and> rs = slice_to (int_or k0 (RETRIEVAL_TOP_K cfg))
                    (sort_by_score (combined (alpha hs) (merge_by_id vr br)))"
  using assms by (auto simp: search_def Let_def split: sum.splits)

lemma collect_Inr: "collect xs = Inr vs \<Longrightarrow> xs = map Inr vs"
proof (induction xs arbitrary: vs)
  case Nil
  then show ?case by simp
next
  case (Cons x xs)
  then show ?case by (auto split: sum.splits)
qed

lemma item_Inr: "item xs i = Inr v \<Longrightarrow> v \<in> set xs"
  by (auto simp: item_def split: if_splits)

lemma vector_result_score:
  "vector_result res ns i cid = Inr r \<Longrightarrow> score r \<in> set ns"
  by (auto simp: vector_result_def split: sum.splits dest: item_Inr)

lemma bm25_result_score: "bm25_result hs idx ns = Inr r \<Longrightarrow> score r = ns"
  by (auto simp: bm25_result_def split: sum.splits)

lemma vector_search_range:
  assumes "vector_search E q k = Inr vr" and "r \<in> set vr"
  shows "0 \<le> score r \<and> score r \<le> 1"
proof -
  from assms(1) obtain emb where emb: "embed_query E q = Inr emb"
    by (cases "embed_query E q") (simp_all add: vector_search_def)
  from assms(1) emb obtain res where res: "collection_query E emb k = Inr res"
    by (cases "collection_query E emb k") (simp_all add: vector_search_def)
  show ?thesis
  proof (cases "q_ids res = [] \<or> hd (q_ids res) = []")
    case True
    with assms(1) emb res have "vr = []" by (simp add: vector_search_def)
    with assms(2) show ?thesis by simp
  next
    case False
    with assms(1) emb res obtain dist where dist: "item (q_distances res) 0 = Inr dist"
      by (cases "item (q_distances res) 0") (simp_all add: vector_search_def)
    let ?ns = "normalize_scores (map (\<lambda>d. 1 - d) dist)"
    from assms(1) emb res False dist
    have c: "collect (map (\<lambda>(i, cid). vector_result res ?ns i cid)
                        (enumerate 0 (hd (q_ids res)))) = Inr vr"
      by (simp add: vector_search_def Let_def)
    from collect_Inr [OF c] assms(2)
    have "Inr r \<in> set (map (\<lambda>(i, cid). vector_result res ?ns i cid)
                        (enumerate 0 (hd (q_ids res))))"
      by simp
    then obtain i cid where "vector_result res ?ns i cid = Inr r"
      by auto
    then have "score r \<in> set ?ns"
      by (rule vector_result_score)
    then show ?thesis by (rule normalize_scores_range)
  qed
qed

lemma bm25_search_range:
  assumes "bm25_search E hs q k = Inr (br, hs1)" and "r \<in> set br"
  shows "0 \<le> score r \<and> score r \<le> 1"
proof -
  let ?built = "if bm25 hs = None then build_bm25_index E hs else Inr hs"
  from assms(1) obtain hs' where built: "?built = Inr hs'"
    by (cases ?built) (simp_all add: bm25_search_def)
  show ?thesis
  proof (cases "bm25 hs'")
    case None
    with assms(1) built have "br = []" by (simp add: bm25_search_def)
    with assms(2) show ?thesis by simp
  next
    case (Some index)
    let ?raw = "bm25_get_scores E index (split E (lower E q))"
    let ?tops = "slice_to k (rev (argsort ?raw))"
    let ?ns = "normalize_scores (map (\<lambda>i. ?raw ! i) ?tops)"
    let ?steps = "map (\<lambda>(idx, ns). bm25_result hs' idx ns) (zip ?tops ?ns)"
    from assms(1) built Some have c: "collect ?steps = Inr br"
      by (cases "collect ?steps") (simp_all add: bm25_search_def Let_def)
    from collect_Inr [OF c] assms(2) have "Inr r \<in> set ?steps"
      by simp
    then obtain idx ns where "(idx, ns) \<in> set (zip ?tops ?ns)"
      and "bm25_result hs' idx ns = Inr r"
      by auto
    then have "score r \<in> set ?ns"
      using bm25_result_score [of hs' idx ns r] by (auto dest: set_zip_rightD)
    then show ?thesis by (rule normalize_scores_range)
  qed
qed

lemma score_in_range:
  assumes "\<And>r. r \<in> set rs \<Longrightarrow> 0 \<le> score r \<and> score r \<le> 1"
  shows "0 \<le> score_in rs cid \<and> score_in rs cid \<le> 1"
  using score_in_cases [of rs cid] assms by auto

lemma convex_range:
  fixes a v b :: real
  assumes "0 \<le> a" "a \<le> 1" "0 \<le> v" "v \<le> 1" "0 \<le> b" "b \<le> 1"
  shows "0 \<le> a * v + (1 - a) * b \<and> a * v + (1 - a) * b \<le> 1"
proof -
  have "0 \<le> a * v" "0 \<le> (1 - a) * b" using assms by simp_all
  moreover have "a * v \<le> a * 1" using assms by (intro mult_left_mono) simp_all
  moreover have "(1 - a) * b \<le> (1 - a) * 1" using assms by (intro mult_left_mono) simp_all
  ultimately show ?thesis by simp
qed

lemma set_slice_to: "set (slice_to k xs) \<subseteq> set xs"
  by (auto simp: slice_to_def dest: in_set_takeD)

lemma set_sort_by_score: "set (sort_by_score rs) = set rs"
  by (simp add: sort_by_score_def)

lemma in_slice_to: "x \<in> set (slice_to k xs) \<Longrightarrow> x \<in> set xs"
  using set_slice_to [of k xs] by (rule subsetD)


lemma length_normalize_scores: "length (normalize_scores xs) = length xs"
  by (simp add: normalize_scores_def Let_def)

lemma collect_nth:
  assumes "collect xs = Inr vs"
  shows "length vs = length xs" and "i < length xs \<Longrightarrow> xs ! i = Inr (vs ! i)"
  using collect_Inr [OF assms] by simp_all

lemma vector_result_nth:
  "vector_result res ns i cid = Inr r \<Longrightarrow> i < length ns \<and> score r = ns ! i"
  by (auto simp: vector_result_def item_def split: sum.splits if_splits)

lemma vector_search_normalized:
  assumes "vector_search E q k = Inr vr" and "vr \<noteq> []"
  shows "\<exists>emb res dist.
           embed_query E q = Inr emb \<and> collection_query E emb k = Inr res
           \<and> item (q_distances res) 0 = Inr dist
           \<and> map score vr = take (length vr) (normalize_scores (map (\<lambda>d. 1 - d) dist))"
proof -
  from assms(1) obtain emb where emb: "embed_query E q = Inr emb"
    by (cases "embed_query E q") (simp_all add: vector_search_def)
  from assms(1) emb obtain res where res: "collection_query E emb k = Inr res"
    by (cases "collection_query E emb k") (simp_all add: vector_search_def)
  have hits: "\<not> (q_ids res = [] \<or> hd (q_ids res) = [])"
    using assms emb res by (auto simp: vector_search_def)
  with assms(1) emb res obtain dist where dist: "item (q_distances res) 0 = Inr dist"
    by (cases "item (q_distances res) 0") (simp_all add: vector_search_def)
  let ?ns = "normalize_scores (map (\<lambda>d. 1 - d) dist)"
  let ?steps = "map (\<lambda>(i, cid). vector_result res ?ns i cid) (enumerate 0 (hd (q_ids res)))"
  from assms(1) emb res hits dist have c: "collect ?steps = Inr vr"
    by (simp add: vector_search_def Let_def)
  have len: "length vr = length (hd (q_ids res))"
    using collect_nth(1) [OF c] by simp
  have each: "i < length ?ns \<and> score (vr ! i) = ?ns ! i" if "i < length vr" for i
  proof -
    from that len have "?steps ! i = vector_result res ?ns i (hd (q_ids res) ! i)"
      by (simp add: nth_enumerate_eq)
    moreover from that len have "?steps ! i = Inr (vr ! i)"
      using collect_nth(2) [OF c, of i] by simp
    ultimately show ?thesis using vector_result_nth by metis
  qed
  have "map score vr = take (length vr) ?ns"
  proof (rule nth_equalityI)
    show "length (map score vr) = length (take (length vr) ?ns)"
    proof (cases "vr = []")
      case True
      then show ?thesis by simp
    next
      case False
      then have "length vr - 1 < length vr" by simp
      from each [OF this] have "length vr - 1 < length ?ns" by simp
      then have "length vr \<le> length ?ns" by linarith
      then show ?thesis by simp
    qed
  next
    fix i assume "i < length (map score vr)"
    then show "map score vr ! i = take (length vr) ?ns ! i"
      using each [of i] by simp
  qed
  with emb res dist show ?thesis by blast
qed

lemma bm25_search_normalized:
  assumes "bm25_search E hs q k = Inr (br, hs1)" and "br \<noteq> []"
  shows "\<exists>index. bm25 hs1 = Some index
           \<and> map score br =
               normalize_scores
                 (map (\<lambda>i. bm25_get_scores E index (split E (lower E q)) ! i)
                    (slice_to k (rev (argsort (bm25_get_scores E index (split E (lower E q)))))))"
proof -
  let ?built = "if bm25 hs = None then build_bm25_index E hs else Inr hs"
  from assms(1) obtain hs' where built: "?built = Inr hs'"
    by (cases ?built) (simp_all add: bm25_search_def)
  from assms built obtain index where index: "bm25 hs' = Some index"
    by (cases "bm25 hs'") (simp_all add: bm25_search_def)
  let ?raw = "bm25_get_scores E index (split E (lower E q))"
  let ?tops = "slice_to k (rev (argsort ?raw))"
  let ?ns = "normalize_scores (map (\<lambda>i. ?raw ! i) ?tops)"
  let ?steps = "map (\<lambda>(idx, ns). bm25_result hs' idx ns) (zip ?tops ?ns)"
  from assms(1) built index have c: "collect ?steps = Inr br" and same: "hs1 = hs'"
    by (cases "collect ?steps"; simp add: bm25_search_def Let_def)+
  have lens: "length ?ns = length ?tops"
    by (simp add: length_normalize_scores)
  have len: "length br = length ?tops"
    using collect_nth(1) [OF c] lens by simp
  have "map score br = ?ns"
  proof (rule nth_equalityI)
    show "length (map score br) = length ?ns" using len lens by simp
  next
    fix i assume "i < length (map score br)"
    then have i: "i < length ?tops" using len by simp
    then have "?steps ! i = bm25_result hs' (?tops ! i) (?ns ! i)"
      using lens by simp
    moreover have "?steps ! i = Inr (br ! i)"
      using collect_nth(2) [OF c, of i] i lens by simp
    ultimately have "score (br ! i) = ?ns ! i"
      using bm25_result_score by metis
    then show "map score br ! i = ?ns ! i" using i len by simp
  qed
  with index same show ?thesis by blast
qed

text \<open>
  C2. Hybrid fusion unions the vector and the lexical result set by chunk id: the fused
  list has one entry per chunk id of either set, and the score of each entry is
  \<open>alpha * vector_score + (1 - alpha) * lexical_score\<close>, with the score the respective
  set gives to that id, and \<open>0.0\<close> for a set the id is not in. The scores of either set
  are the min-max normalised similarities respectively lexical scores of that set. The
  results of the search are the fused list, sorted and cut.
\<close>

theorem C2_hybrid_fusion:
  assumes "vector_search E q (int_or k0 (RETRIEVAL_TOP_K cfg) * 3) = Inr vr"
    and "bm25_search E hs q (int_or k0 (RETRIEVAL_TOP_K cfg) * 3) = Inr (br, hs1)"
  shows "search cfg E hs q k0 =
           Inr (slice_to (int_or k0 (RETRIEVAL_TOP_K cfg))
                  (sort_by_score (combined (alpha hs) (merge_by_id vr br))), hs1)
         \<and> distinct (map chunk_id (combined (alpha hs) (merge_by_id vr br)))
         \<and> set (map chunk_id (combined (alpha hs) (merge_by_id vr br)))
             = chunk_id ` set vr \<union> chunk_id ` set br
         \<and> (\<forall>r \<in> set (combined (alpha hs) (merge_by_id vr br)).
               score r = alpha hs * score_in vr (chunk_id r)
                         + (1 - alpha hs) * score_in br (chunk_id r))
         \<and> (\<forall>cid. cid \<notin> chunk_id ` set vr \<longrightarrow> score_in vr cid = 0)
         \<and> (\<forall>cid. cid \<notin> chunk_id ` set br \<longrightarrow> score_in br cid = 0)
         \<and> (vr \<noteq> [] \<longrightarrow>
               (\<exists>emb res dist.
                  embed_query E q = Inr emb
                  \<and> collection_query E emb (int_or k0 (RETRIEVAL_TOP_K cfg) * 3) = Inr res
                  \<and> item (q_distances res) 0 = Inr dist
                  \<and> map score vr
                      = take (length vr) (normalize_scores (map (\<lambda>d. 1 - d) dist))))
         \<and> (br \<noteq> [] \<longrightarrow>
               (\<exists>index.
                  bm25 hs1 = Some index
                  \<and> map score br =
                      normalize_scores
                        (map (\<lambda>i. bm25_get_scores E index (split E (lower E q)) ! i)
                           (slice_to (int_or k0 (RETRIEVAL_TOP_K cfg) * 3)
                              (rev (argsort
                                 (bm25_get_scores E index (split E (lower E q)))))))))"
proof -
  have run: "search cfg E hs q k0 =
           Inr (slice_to (int_or k0 (RETRIEVAL_TOP_K cfg))
                  (sort_by_score (combined (alpha hs) (merge_by_id vr br))), hs1)"
    using assms by (simp add: search_def Let_def)
  have absent: "\<forall>cid. cid \<notin> chunk_id ` set rs \<longrightarrow> score_in rs cid = 0" for rs
    by (simp add: score_in_absent)
  note vn = vector_search_normalized [OF assms(1)]
  note bn = bm25_search_normalized [OF assms(2)]
  from run fused_scores [of "alpha hs" vr br] absent [of vr] absent [of br] vn bn
  show ?thesis by (intro conjI impI) simp_all
qed

theorem C2_hybrid_fusion_witness:
  "vector_search ex_env_docs (S ''secrets'') (int_or (Some 10) (RETRIEVAL_TOP_K default_settings) * 3)
     = Inr [ex_X 1, ex_Y 0]
   \<and> bm25_search ex_env_docs (HybridSearch_init default_settings) (S ''secrets'')
         (int_or (Some 10) (RETRIEVAL_TOP_K default_settings) * 3)
     = Inr ([ex_Y 1, ex_X 0], ex_index)
   \<and> search default_settings ex_env_docs (HybridSearch_init default_settings) (S ''secrets'') (Some 10)
     = Inr ([ex_X (3 / 5), ex_Y (2 / 5)], ex_index)
   \<and> combined (3 / 5) (merge_by_id [ex_X 1, ex_Y 0] [ex_Y 1, ex_X 0]) = [ex_X (3 / 5), ex_Y (2 / 5)]
   \<and> score_in [ex_X 1, ex_Y 0] (S ''X'') = 1 \<and> score_in [ex_Y 1, ex_X 0] (S ''X'') = 0"
proof -
  have v: "vector_search ex_env_docs (S ''secrets'') (int_or (Some 10) (RETRIEVAL_TOP_K default_settings) * 3)
     = Inr [ex_X 1, ex_Y 0]"
    by (simp add: int_or_def default_settings_fields ex_vector_secrets)
  have b: "bm25_search ex_env_docs (HybridSearch_init default_settings) (S ''secrets'')
         (int_or (Some 10) (RETRIEVAL_TOP_K default_settings) * 3)
     = Inr ([ex_Y 1, ex_X 0], ex_index)"
    by (simp add: int_or_def default_settings_fields ex_bm25_secrets)
  have f: "combined (3 / 5) (merge_by_id [ex_X 1, ex_Y 0] [ex_Y 1, ex_X 0]) = [ex_X (3 / 5), ex_Y (2 / 5)]"
    by (simp add: combined_def merge_by_id_def add_vector_def add_bm25_def ex_X_def ex_Y_def S_eq_iff)
  have s: "sort_by_score [ex_X (3 / 5), ex_Y (2 / 5)] = [ex_X (3 / 5), ex_Y (2 / 5)]"
    by (simp add: sort_by_score_def ex_X_def ex_Y_def)
  have a: "alpha (HybridSearch_init default_settings) = 3 / 5"
    by (simp add: HybridSearch_init_def default_settings_fields)
  have sc: "score_in [ex_X 1, ex_Y 0] (S ''X'') = 1" "score_in [ex_Y 1, ex_X 0] (S ''X'') = 0"
    by (simp_all add: score_in_def ex_X_def ex_Y_def S_eq_iff)
  from C2_hybrid_fusion [OF v b, THEN conjunct1]
  have "search default_settings ex_env_docs (HybridSearch_init default_settings) (S ''secrets'') (Some 10)
     = Inr ([ex_X (3 / 5), ex_Y (2 / 5)], ex_index)"
    using a f s by (simp add: int_or_def slice_to_def)
  with v b f sc show ?thesis by simp
qed

text \<open>
  C10. With \<open>alpha\<close> in \<open>[0, 1]\<close>, every result that the hybrid search returns, for any
  query and any \<open>k\<close>, has a score in \<open>[0, 1]\<close>.
\<close>

theorem C10_search_scores_in_unit_interval:
  assumes "search cfg E hs q k0 = Inr (rs, hs1)"
    and "0 \<le> alpha hs" and "alpha hs \<le> 1"
  shows "\<forall>r \<in> set rs. 0 \<le> score r \<and> score r \<le> 1"
proof
  fix r assume r: "r \<in> set rs"
  from search_Inr [OF assms(1)] obtain vr br where
    v: "vector_search E q (int_or k0 (RETRIEVAL_TOP_K cfg) * 3) = Inr vr"
    and b: "bm25_search E hs q (int_or k0 (RETRIEVAL_TOP_K cfg) * 3) = Inr (br, hs1)"
    and rs: "rs = slice_to (int_or k0 (RETRIEVAL_TOP_K cfg))
                    (sort_by_score (combined (alpha hs) (merge_by_id vr br)))"
    by blast
  from r have "r \<in> set (sort_by_score (combined (alpha hs) (merge_by_id vr br)))"
    unfolding rs by (rule in_slice_to)
  then have mem: "r \<in> set (combined (alpha hs) (merge_by_id vr br))"
    by (simp only: set_sort_by_score)
  have sc: "score r = alpha hs * score_in vr (chunk_id r) + (1 - alpha hs) * score_in br (chunk_id r)"
    by (rule fused_scores [THEN conjunct2, THEN conjunct2, rule_format, OF mem])
  have "0 \<le> score_in vr (chunk_id r) \<and> score_in vr (chunk_id r) \<le> 1"
    by (rule score_in_range) (rule vector_search_range [OF v])
  moreover have "0 \<le> score_in br (chunk_id r) \<and> score_in br (chunk_id r) \<le> 1"
    by (rule score_in_range) (rule bm25_search_range [OF b])
  ultimately show "0 \<le> score r \<and> score r \<le> 1"
    unfolding sc using assms(2,3) by (intro convex_range) simp_all
qed

theorem C10_search_scores_in_unit_interval_witness:
  "search default_settings ex_env_docs (HybridSearch_init default_settings) (S ''notice'') (Some 10)
     = Inr ([ex_X 1, ex_Y 0], ex_index)
   \<and> 0 \<le> alpha (HybridSearch_init default_settings)
   \<and> alpha (HybridSearch_init default_settings) \<le> 1
   \<and> list_all (\<lambda>r. 0 \<le> score r \<and> score r \<le> 1) [ex_X 1, ex_Y 0]"
proof -
  have a: "0 \<le> alpha (HybridSearch_init default_settings)"
      "alpha (HybridSearch_init default_settings) \<le> 1"
    by (simp_all add: HybridSearch_init_def default_settings_fields)
  from C10_search_scores_in_unit_interval [OF ex_search_first a]
  have "list_all (\<lambda>r. 0 \<le> score r \<and> score r \<le> 1) [ex_X 1, ex_Y 0]"
    by (simp only: list_all_iff)
  with ex_search_first a show ?thesis by simp
qed

section \<open>Properties of the multi-query merge\<close>

lemma best_inv_Nil: "best_inv [] []"
  by (simp add: best_inv_def)

lemma scores_seen_snoc:
  "scores_seen (rs @ [x]) cid =
     (if chunk_id x = cid then insert (score x) (scores_seen rs cid) else scores_seen rs cid)"
  by (auto simp: scores_seen_def)

lemma scores_seen_finite: "finite (scores_seen rs cid)"
  by (simp add: scores_seen_def)

lemma scores_seen_empty: "cid \<notin> chunk_id ` set rs \<Longrightarrow> scores_seen rs cid = {}"
  by (auto simp: scores_seen_def image_iff)

lemma scores_seen_member: "r \<in> set rs \<Longrightarrow> score r \<in> scores_seen rs (chunk_id r)"
  by (auto simp: scores_seen_def)

lemma best_inv_step:
  assumes inv: "best_inv rs all"
  shows "best_inv (rs @ [x]) (keep_best x all)"
proof -
  from inv have dist: "distinct (map fst all)"
    and keys: "fst ` set all = chunk_id ` set rs"
    and best: "\<And>cid r. map_of all cid = Some r \<Longrightarrow>
           r \<in> set rs \<and> chunk_id r = cid
           \<and> score r = Max (scores_seen rs cid)"
    by (simp_all add: best_inv_def)
  show ?thesis
  proof (cases "map_of all (chunk_id x)")
    case None
    then have fresh: "chunk_id x \<notin> chunk_id ` set rs"
      using keys by (metis map_of_eq_None_iff)
    have kb: "keep_best x all = AList.update (chunk_id x) x all"
      using None by (simp add: keep_best_def)
    have empty: "scores_seen rs (chunk_id x) = {}"
      using fresh by (rule scores_seen_empty)
    show ?thesis
      unfolding best_inv_def kb
    proof (intro conjI allI impI)
      show "distinct (map fst (AList.update (chunk_id x) x all))"
        using dist by (simp add: distinct_update)
      show "fst ` set (AList.update (chunk_id x) x all) = chunk_id ` set (rs @ [x])"
        using keys by (auto simp: dom_update)
    next
      fix cid r assume m: "map_of (AList.update (chunk_id x) x all) cid = Some r"
      show "r \<in> set (rs @ [x])" "chunk_id r = cid"
        "score r = Max (scores_seen (rs @ [x]) cid)"
      proof -
        show "r \<in> set (rs @ [x])" using m best [of cid r]
          by (auto simp: update_conv' split: if_splits)
        show "chunk_id r = cid" using m best [of cid r]
          by (auto simp: update_conv' split: if_splits)
        show "score r = Max (scores_seen (rs @ [x]) cid)"
        proof (cases "cid = chunk_id x")
          case True
          then have "r = x" using m by (simp add: update_conv')
          then show ?thesis using True empty by (simp add: scores_seen_snoc)
        next
          case False
          then have "map_of all cid = Some r" using m by (simp add: update_conv')
          then show ?thesis using best [of cid r] False by (simp add: scores_seen_snoc)
        qed
      qed
    qed
  next
    case (Some old)
    note old = best [OF Some]
    have fin: "finite (scores_seen rs (chunk_id x))" by (rule scores_seen_finite)
    have ne: "scores_seen rs (chunk_id x) \<noteq> {}"
      using old scores_seen_member [of old rs] by auto
    have keys': "insert (chunk_id x) (fst ` set all) = fst ` set all"
      using Some by (metis insert_absorb map_of_eq_None_iff option.distinct(1))
    show ?thesis
    proof (cases "score x > score old")
      case True
      then have kb: "keep_best x all = AList.update (chunk_id x) x all"
        using Some by (simp add: keep_best_def)
      show ?thesis
        unfolding best_inv_def kb
      proof (intro conjI allI impI)
        show "distinct (map fst (AList.update (chunk_id x) x all))"
          using dist by (simp add: distinct_update)
        show "fst ` set (AList.update (chunk_id x) x all) = chunk_id ` set (rs @ [x])"
          using keys keys' by (auto simp: dom_update)
      next
        fix cid r assume m: "map_of (AList.update (chunk_id x) x all) cid = Some r"
        show "r \<in> set (rs @ [x])" using m best [of cid r]
          by (auto simp: update_conv' split: if_splits)
        show "chunk_id r = cid" using m best [of cid r]
          by (auto simp: update_conv' split: if_splits)
        show "score r = Max (scores_seen (rs @ [x]) cid)"
        proof (cases "cid = chunk_id x")
          case c: True
          then have "r = x" using m by (simp add: update_conv')
          moreover have "Max (insert (score x) (scores_seen rs (chunk_id x)))
                = max (score x) (score old)"
            using old fin ne by (simp add: Max_insert)
          ultimately show ?thesis using c True by (simp add: scores_seen_snoc)
        next
          case False
          then have "map_of all cid = Some r" using m by (simp add: update_conv')
          then show ?thesis using best [of cid r] False by (simp add: scores_seen_snoc)
        qed
      qed
    next
      case False
      then have kb: "keep_best x all = all"
        using Some by (simp add: keep_best_def)
      show ?thesis
        unfolding best_inv_def kb
      proof (intro conjI allI impI)
        show "distinct (map fst all)" by (rule dist)
        show "fst ` set all = chunk_id ` set (rs @ [x])"
          using keys keys' by auto
      next
        fix cid r assume m: "map_of all cid = Some r"
        show "r \<in> set (rs @ [x])" using best [OF m] by simp
        show "chunk_id r = cid" using best [OF m] by simp
        show "score r = Max (scores_seen (rs @ [x]) cid)"
        proof (cases "cid = chunk_id x")
          case c: True
          then have "r = old" using m Some by simp
          moreover have "Max (insert (score x) (scores_seen rs (chunk_id x)))
                = max (score x) (score old)"
            using old fin ne by (simp add: Max_insert)
          ultimately show ?thesis using c False by (simp add: scores_seen_snoc)
        next
          case False
          then show ?thesis using best [OF m] by (simp add: scores_seen_snoc)
        qed
      qed
    qed
  qed
qed

lemma best_inv_fold: "best_inv rs all \<Longrightarrow> best_inv (rs @ xs) (fold keep_best xs all)"
proof (induction xs arbitrary: rs all)
  case Nil
  then show ?case by simp
next
  case (Cons x xs)
  from Cons.IH [OF best_inv_step [OF Cons.prems, of x]] show ?case by simp
qed

lemma search_all_variants:
  "search_all cfg E hs k qs all = Inr (all', hs') \<Longrightarrow>
     \<exists>rss. variant_results cfg E hs k qs = Inr rss \<and> all' = fold keep_best (concat rss) all"
proof (induction qs arbitrary: hs all)
  case Nil
  then show ?case by simp
next
  case (Cons q qs)
  from Cons.prems obtain rs hs1 where
    s: "search cfg E hs q (Some (k * 2)) = Inr (rs, hs1)"
    and rest: "search_all cfg E hs1 k qs (fold keep_best rs all) = Inr (all', hs')"
    by (auto split: sum.splits)
  from Cons.IH [OF rest] obtain rss where
    "variant_results cfg E hs1 k qs = Inr rss" "all' = fold keep_best (concat rss) (fold keep_best rs all)"
    by blast
  then show ?case using s by simp
qed

text \<open>
  C3. When the orchestrator searches several query variants, the merged candidates hold
  one result per chunk id that any variant returned, and its score is the maximum of the
  scores that the variants gave to this id: a chunk scored \<open>0.9\<close> by one variant and \<open>0.2\<close>
  by another is kept with \<open>0.9\<close>, in either order.
\<close>

theorem C3_merge_keeps_maximum:
  assumes "search_all cfg E hs k qs [] = Inr (all, hs1)"
  shows "\<exists>rss. variant_results cfg E hs k qs = Inr rss
           \<and> distinct (map fst all)
           \<and> fst ` set all = chunk_id ` set (concat rss)
           \<and> (\<forall>r \<in> set (sort_by_score (map snd all)).
                 r \<in> set (concat rss)
                 \<and> score r = Max (scores_seen (concat rss) (chunk_id r)))
           \<and> (\<forall>a b. chunk_id a = chunk_id b \<and> score a = 9 / 10 \<and> score b = 2 / 10 \<longrightarrow>
                 map snd (fold keep_best [b] (fold keep_best [a] [])) = [a]
                 \<and> map snd (fold keep_best [a] (fold keep_best [b] [])) = [a])"
proof -
  from search_all_variants [OF assms] obtain rss where
    rss: "variant_results cfg E hs k qs = Inr rss" and all: "all = fold keep_best (concat rss) []"
    by blast
  have "best_inv ([] @ concat rss) (fold keep_best (concat rss) [])"
    by (rule best_inv_fold [OF best_inv_Nil])
  then have inv: "best_inv (concat rss) all" using all by simp
  then have dist: "distinct (map fst all)"
    and keys: "fst ` set all = chunk_id ` set (concat rss)"
    and best: "\<And>cid r. map_of all cid = Some r \<Longrightarrow>
           r \<in> set (concat rss) \<and> chunk_id r = cid
           \<and> score r = Max (scores_seen (concat rss) cid)"
    by (simp_all add: best_inv_def)
  have each: "r \<in> set (concat rss) \<and> score r = Max (scores_seen (concat rss) (chunk_id r))"
    if "r \<in> set (sort_by_score (map snd all))" for r
  proof -
    from that obtain cid where "(cid, r) \<in> set all"
      by (auto simp: sort_by_score_def)
    with dist have "map_of all cid = Some r" by simp
    from best [OF this] show ?thesis by simp
  qed
  have example: "map snd (fold keep_best [b] (fold keep_best [a] [])) = [a]
                 \<and> map snd (fold keep_best [a] (fold keep_best [b] [])) = [a]"
    if "chunk_id a = chunk_id b \<and> score a = 9 / 10 \<and> score b = 2 / 10" for a b :: SearchResult
    using that by (simp add: keep_best_def)
  from rss dist keys each example show ?thesis by blast
qed

theorem C3_merge_keeps_maximum_witness:
  "search_all default_settings ex_env_docs (HybridSearch_init default_settings) 5
      [S ''notice'', S ''secrets''] []
     = Inr ([(S ''X'', ex_X 1), (S ''Y'', ex_Y (2 / 5))], ex_index)
   \<and> variant_results default_settings ex_env_docs (HybridSearch_init default_settings) 5
        [S ''notice'', S ''secrets'']
     = Inr [[ex_X 1, ex_Y 0], [ex_X (3 / 5), ex_Y (2 / 5)]]
   \<and> sort_by_score (map snd [(S ''X'', ex_X 1), (S ''Y'', ex_Y (2 / 5))]) = [ex_X 1, ex_Y (2 / 5)]
   \<and> score (ex_X 1) = Max (scores_seen (concat [[ex_X 1, ex_Y 0], [ex_X (3 / 5), ex_Y (2 / 5)]]) (S ''X''))
   \<and> score (ex_Y (2 / 5)) = Max (scores_seen (concat [[ex_X 1, ex_Y 0], [ex_X (3 / 5), ex_Y (2 / 5)]]) (S ''Y''))"
proof -
  have sorted: "sort_by_score (map snd [(S ''X'', ex_X 1), (S ''Y'', ex_Y (2 / 5))]) = [ex_X 1, ex_Y (2 / 5)]"
    by (simp add: sort_by_score_def ex_X_def ex_Y_def)
  from C3_merge_keeps_maximum [OF ex_search_all] obtain rss where
    "variant_results default_settings ex_env_docs (HybridSearch_init default_settings) 5
        [S ''notice'', S ''secrets''] = Inr rss"
    and "\<forall>r \<in> set (sort_by_score (map snd [(S ''X'', ex_X 1), (S ''Y'', ex_Y (2 / 5))])).
                 r \<in> set (concat rss)
                 \<and> score r = Max (scores_seen (concat rss) (chunk_id r))"
    by blast
  then have "\<forall>r \<in> set [ex_X 1, ex_Y (2 / 5)].
               score r = Max (scores_seen (concat [[ex_X 1, ex_Y 0], [ex_X (3 / 5), ex_Y (2 / 5)]]) (chunk_id r))"
    using ex_variants sorted by simp
  then have "score (ex_X 1) = Max (scores_seen (concat [[ex_X 1, ex_Y 0], [ex_X (3 / 5), ex_Y (2 / 5)]]) (S ''X''))"
    "score (ex_Y (2 / 5)) = Max (scores_seen (concat [[ex_X 1, ex_Y 0], [ex_X (3 / 5), ex_Y (2 / 5)]]) (S ''Y''))"
    by (simp_all add: ex_X_def ex_Y_def)
  with ex_search_all ex_variants sorted show ?thesis by simp
qed

section \<open>Properties of the reranker\<close>

lemma rerank_fallback:
  assumes "get_ranker E rr = Inl e \<or> ranker_rerank E q (map passage_of cands) = Inl e"
  shows "fst (rerank E rr q cands n0) = slice_to (int_or n0 (top_n rr)) cands"
proof (cases "cands = []")
  case True
  then show ?thesis by (simp add: rerank_def slice_to_def)
next
  case False
  then show ?thesis using assms
    by (auto simp: rerank_def Let_def split: sum.splits)
qed

lemma ReRanker_init_top_n: "top_n (ReRanker_init cfg) = RERANKER_TOP_N cfg"
  by (simp add: ReRanker_init_def)

lemma ex_ranker_down:
  "get_ranker ex_env_ranker_down (ReRanker_init default_settings) = Inl timeout"
  by (simp add: get_ranker_def ReRanker_init_def ex_env_ranker_down_def)

text \<open>
  C4, as the code has it. For every query, non-empty candidate list and \<open>top_n\<close>: if
  loading the secondary relevance model or its ranking call raises, \<open>rerank\<close> returns
  \<open>candidates[:n]\<close> unchanged, where \<open>n\<close> is \<open>top_n\<close> when that is given and not \<open>0\<close>, and
  the reranker's configured \<open>top_n\<close> otherwise; for a positive \<open>top_n\<close> these are the
  first \<open>top_n\<close> candidates. \<open>rerank\<close> has no way to raise: its whole work is inside
  \<open>try\<close>.
\<close>

theorem C4_rerank_fallback:
  assumes "cands \<noteq> []"
    and "get_ranker E rr = Inl e \<or> ranker_rerank E q (map passage_of cands) = Inl e"
  shows "fst (rerank E rr q cands n0) = slice_to (int_or n0 (top_n rr)) cands
         \<and> (\<forall>n. n0 = Some n \<and> n \<noteq> 0 \<longrightarrow> fst (rerank E rr q cands n0) = slice_to n cands)
         \<and> (\<forall>n. n0 = Some n \<and> 0 < n \<longrightarrow> fst (rerank E rr q cands n0) = take (nat n) cands)"
proof -
  have a: "fst (rerank E rr q cands n0) = slice_to (int_or n0 (top_n rr)) cands"
    using assms(2) by (rule rerank_fallback)
  have b: "fst (rerank E rr q cands n0) = slice_to n cands" if "n0 = Some n" "n \<noteq> 0" for n
    using a that by (simp add: int_or_def)
  have c: "fst (rerank E rr q cands n0) = take (nat n) cands" if "n0 = Some n" "0 < n" for n
    using b [of n] that by (simp add: slice_to_def)
  from a b c show ?thesis by blast
qed

theorem C4_rerank_fallback_witness:
  "[ex_X 1, ex_Y 0] \<noteq> []
   \<and> get_ranker ex_env_ranker_down (ReRanker_init default_settings) = Inl timeout
   \<and> fst (rerank ex_env_ranker_down (ReRanker_init default_settings) (S ''notice'')
            [ex_X 1, ex_Y 0] (Some 1)) = [ex_X 1]"
proof -
  have ne: "[ex_X 1, ex_Y 0] \<noteq> []" by simp
  have down: "get_ranker ex_env_ranker_down (ReRanker_init default_settings) = Inl timeout
              \<or> ranker_rerank ex_env_ranker_down (S ''notice'') (map passage_of [ex_X 1, ex_Y 0]) = Inl timeout"
    by (simp add: ex_ranker_down)
  from C4_rerank_fallback [OF ne down, of "Some 1"]
  have "fst (rerank ex_env_ranker_down (ReRanker_init default_settings) (S ''notice'')
            [ex_X 1, ex_Y 0] (Some 1)) = [ex_X 1]"
    by (simp add: int_or_def slice_to_def)
  with ex_ranker_down show ?thesis by simp
qed

text \<open>
  C4 as stated fails at \<open>top_n = 0\<close>: the fallback is not the first \<open>0\<close> candidates,
  since the configured \<open>top_n\<close> of \<open>3\<close> takes the place of \<open>0\<close>, and the one candidate
  comes back.
\<close>

theorem C4_rerank_top_n_zero_counterexample:
  "[ex_X 1] \<noteq> []
   \<and> get_ranker ex_env_ranker_down (ReRanker_init default_settings) = Inl timeout
   \<and> fst (rerank ex_env_ranker_down (ReRanker_init default_settings) (S ''notice'') [ex_X 1] (Some 0))
       = [ex_X 1]
   \<and> slice_to 0 [ex_X 1] = []
   \<and> fst (rerank ex_env_ranker_down (ReRanker_init default_settings) (S ''notice'') [ex_X 1] (Some 0))
       \<noteq> slice_to 0 [ex_X 1]"
  by (simp add: rerank_def ex_ranker_down int_or_def slice_to_def ReRanker_init_top_n
      default_settings_fields Let_def)

section \<open>Properties of the query expander\<close>

text \<open>
  C5, as the code has it. For every query and every combination of the two flags: when
  the expansion steps that are enabled return, \<open>expand\<close> returns the original query
  followed by their output, so with both steps disabled it returns exactly the original
  query; and whenever \<open>expand\<close> returns, the first element is the original query.
\<close>

theorem C5_expand_keeps_query:
  "((use_hyde \<longrightarrow> hyde E qe q = Inr h) \<and> (use_multi \<longrightarrow> multi_query E qe q = Inr ms)
      \<longrightarrow> expand E qe q use_hyde use_multi =
            Inr (q # (if use_hyde then [h] else []) @ (if use_multi then ms else [])))
   \<and> expand E qe q False False = Inr [q]
   \<and> (expand E qe q use_hyde use_multi = Inr qs \<longrightarrow> qs \<noteq> [] \<and> hd qs = q)"
proof -
  have a: "expand E qe q use_hyde use_multi =
            Inr (q # (if use_hyde then [h] else []) @ (if use_multi then ms else []))"
    if "use_hyde \<longrightarrow> hyde E qe q = Inr h" "use_multi \<longrightarrow> multi_query E qe q = Inr ms"
    using that by (auto simp: expand_def)
  have b: "expand E qe q False False = Inr [q]"
    by (simp add: expand_def)
  have c: "qs \<noteq> [] \<and> hd qs = q" if "expand E qe q use_hyde use_multi = Inr qs"
    using that by (auto simp: expand_def split: if_splits sum.splits)
  from a b c show ?thesis by blast
qed

lemma ex_hyde: "hyde ex_env_docs (QueryExpander_init default_settings) (S ''notice'') = Inr (S ''secrets'')"
  by (simp add: hyde_def ex_env_docs_calls str_or_def S_Nil_iff)

lemma ex_multi_query:
  "multi_query ex_env_docs (QueryExpander_init default_settings) (S ''notice'')
     = Inr [S ''trade'', S ''period'']"
  by (simp add: multi_query_def ex_env_docs_calls str_or_def) 
     (simp add: S_def strip_def split_lines_def lstrip_def slice_to_def ex_env_docs_chars Let_def)

theorem C5_expand_keeps_query_witness:
  "hyde ex_env_docs (QueryExpander_init default_settings) (S ''notice'') = Inr (S ''secrets'')
   \<and> multi_query ex_env_docs (QueryExpander_init default_settings) (S ''notice'')
       = Inr [S ''trade'', S ''period'']
   \<and> expand ex_env_docs (QueryExpander_init default_settings) (S ''notice'') True True
       = Inr [S ''notice'', S ''secrets'', S ''trade'', S ''period'']
   \<and> hd [S ''notice'', S ''secrets'', S ''trade'', S ''period''] = S ''notice''"
proof -
  from C5_expand_keeps_query [of True ex_env_docs "QueryExpander_init default_settings"
      "S ''notice''" "S ''secrets''" True "[S ''trade'', S ''period'']"]
  have "expand ex_env_docs (QueryExpander_init default_settings) (S ''notice'') True True
       = Inr [S ''notice'', S ''secrets'', S ''trade'', S ''period'']"
    by (simp add: ex_hyde ex_multi_query)
  with ex_hyde ex_multi_query show ?thesis by simp
qed

text \<open>
  C5 as stated fails when an enabled step raises: with the chat model out of reach,
  \<open>hyde\<close> raises and \<open>expand\<close> raises with it, so that no list comes back.
\<close>

theorem C5_expand_raises_counterexample:
  "hyde ex_env_chat_down (QueryExpander_init default_settings) (S ''notice'') = Inl timeout
   \<and> expand ex_env_chat_down (QueryExpander_init default_settings) (S ''notice'') True False
       = Inl timeout"
  by (simp add: expand_def hyde_def ex_env_chat_down_def)

section \<open>Properties of the orchestrator\<close>

lemma detect_doc_language_raises:
  assumes "collection_peek E 1 = Inl e \<or> (\<forall>m t. chat_create E m detect_prompt t 0 10 = Inl e)"
  shows "detect_doc_language E R = None"
  using assms
  by (auto simp: detect_doc_language_def Let_def split: sum.splits option.splits)

lemma translation_step_no_doc_language:
  "detect_doc_language E R = None \<Longrightarrow> translation_step E R q = Inr q"
  by (simp add: translation_step_def split: option.splits)

text \<open>
  C6, as the code has it. With query translation enabled or not, an error raised while
  the language of the stored documents is detected (by the sampling of a document or by
  the model that names the language) does not abort \<open>retrieve\<close>: no language is
  detected, the query to search with is the original query, and \<open>retrieve\<close> is the rest
  of the pipeline run on it. The detection of the query's own language calls nothing
  that can raise.
\<close>

theorem C6_detection_failure_is_absorbed:
  assumes "collection_peek E 1 = Inl e \<or> (\<forall>m t. chat_create E m detect_prompt t 0 10 = Inl e)"
  shows "detect_doc_language E R = None
         \<and> translation_step E R q = Inr q
         \<and> retrieve cfg E R q k0 use_hyde use_multi_query =
             search_and_rank cfg E R q q (int_or k0 (RETRIEVAL_TOP_K cfg)) (perf_counter E 0)
               use_hyde use_multi_query"
proof -
  have none: "detect_doc_language E R = None"
    using assms by (rule detect_doc_language_raises)
  then have same: "translation_step E R q = Inr q"
    by (rule translation_step_no_doc_language)
  then show ?thesis using none by (simp add: retrieve_def Let_def)
qed

lemmas branch_cong = sum.case_cong prod.case_cong option.case_cong if_cong

lemma vector_search_without_peek:
  "vector_search (E\<lparr>collection_peek := f\<rparr>) q k = vector_search E q k"
  by (simp add: vector_search_def Let_def cong: branch_cong)

lemma bm25_search_without_peek:
  "bm25_search (E\<lparr>collection_peek := f\<rparr>) hs q k = bm25_search E hs q k"
  by (simp add: bm25_search_def build_bm25_index_def split_def Let_def cong: branch_cong)

lemma search_without_peek:
  "search cfg (E\<lparr>collection_peek := f\<rparr>) hs q k0 = search cfg E hs q k0"
  by (simp add: search_def vector_search_without_peek bm25_search_without_peek Let_def cong: branch_cong)

lemma search_all_without_peek:
  "search_all cfg (E\<lparr>collection_peek := f\<rparr>) hs k qs all = search_all cfg E hs k qs all"
  by (induction qs arbitrary: hs all) (simp_all add: search_without_peek cong: branch_cong)

lemma expansion_step_without_peek:
  "expansion_step (E\<lparr>collection_peek := f\<rparr>) R sq uh um = expansion_step E R sq uh um"
  by (simp add: expansion_step_def expand_def hyde_def multi_query_def strip_def Let_def cong: branch_cong)

lemma rerank_step_without_peek:
  "rerank_step (E\<lparr>collection_peek := f\<rparr>) R q cands k = rerank_step E R q cands k"
  by (simp add: rerank_step_def rerank_def get_ranker_def Let_def cong: branch_cong)

lemma fetch_parents_without_peek:
  "fetch_parents (E\<lparr>collection_peek := f\<rparr>) pids ctx = fetch_parents E pids ctx"
  by (induction pids arbitrary: ctx) (simp_all cong: branch_cong)

lemma get_parent_context_without_peek:
  "get_parent_context (E\<lparr>collection_peek := f\<rparr>) rs = get_parent_context E rs"
  by (simp add: get_parent_context_def fetch_parents_without_peek Let_def cong: branch_cong)

lemma search_and_rank_without_peek:
  "search_and_rank cfg (E\<lparr>collection_peek := f\<rparr>) R q sq k start uh um
     = search_and_rank cfg E R q sq k start uh um"
  by (simp add: search_and_rank_def search_all_without_peek expansion_step_without_peek
      rerank_step_without_peek get_parent_context_without_peek Let_def cong: branch_cong)

lemma ex_tokens_ru: "split ex_env_docs (lower ex_env_docs ex_query_ru) = [ex_query_ru]"
  by (simp add: ex_env_docs_chars split_def ex_query_ru_def)

lemma ex_query_ru_other:
  "S ''notice'' \<noteq> ex_query_ru" "S ''period'' \<noteq> ex_query_ru"
  "S ''trade'' \<noteq> ex_query_ru" "S ''secrets'' \<noteq> ex_query_ru"
  by (simp_all add: S_def ex_query_ru_def)

lemma ex_search_ru:
  "search default_settings ex_env_docs (HybridSearch_init default_settings) ex_query_ru (Some 10)
     = Inr ([ex_X 1, ex_Y (2 / 5)], ex_index)"
  by (simp add: ex_env_docs_fields ex_tokens ex_tokens_ru ex_query_ru_other S_eq_iff ex_objs search_defs)

lemma ex_search_one_ru:
  "search_all default_settings ex_env_docs (HybridSearch_init default_settings) 5 [ex_query_ru] []
     = Inr ([(S ''X'', ex_X 1), (S ''Y'', ex_Y (2 / 5))], ex_index)"
  by (simp add: ex_search_ru keep_best_def) (simp add: ex_X_def ex_Y_def S_eq_iff)

lemma ex_candidates_ru: "sort_by_score [ex_X 1, ex_Y (2 / 5)] = [ex_X 1, ex_Y (2 / 5)]"
  by (simp add: sort_by_score_def ex_X_def ex_Y_def)

lemma ex_rerank_ru:
  "rerank ex_env_docs (ReRanker_init default_settings) ex_query_ru [ex_X 1, ex_Y (2 / 5)] (Some 5)
     = ([ex_Y 4, ex_X 4], (ReRanker_init default_settings)\<lparr>ranker_loaded := True\<rparr>)"
  by (simp add: rerank_def get_ranker_def ReRanker_init_def ex_env_docs_fields ex_env_docs_calls
      int_or_def slice_to_def passage_of_def result_of_def ex_X_def ex_Y_def ex_query_ru_def Let_def)

lemma ex_search_and_rank_ru:
  "search_and_rank default_settings ex_env_docs (Retriever_init default_settings True True True)
      ex_query_ru ex_query_ru 5 0 False False
     = Inr (\<lparr>results = [ex_Y 4, ex_X 4], expanded_queries = [ex_query_ru], latency_ms = 1000,
            total_candidates = 2,
            parent_context = [(MStr (S ''P1''), S ''notice period trade secrets'')]\<rparr>,
           (Retriever_init default_settings True True True)
             \<lparr>hybrid_search := ex_index,
              reranker := Some ((ReRanker_init default_settings)\<lparr>ranker_loaded := True\<rparr>)\<rparr>)"
  by (simp add: search_and_rank_def expansion_step_def Retriever_init_fields
      ex_search_one_ru ex_candidates_ru rerank_step_def ex_rerank_ru ex_parents ex_env_docs_fields
      Let_def del: search_all.simps)

theorem C6_detection_failure_is_absorbed_witness:
  "use_query_translation (Retriever_init default_settings True True True)
   \<and> detect_query_language ex_env_peek_down ex_query_ru = Some (S ''Russian'')
   \<and> collection_peek ex_env_peek_down 1 = Inl timeout
   \<and> translation_step ex_env_peek_down (Retriever_init default_settings True True True) ex_query_ru
       = Inr ex_query_ru
   \<and> retrieve default_settings ex_env_peek_down (Retriever_init default_settings True True True)
        ex_query_ru None False False
       = Inr (\<lparr>results = [ex_Y 4, ex_X 4], expanded_queries = [ex_query_ru], latency_ms = 1000,
              total_candidates = 2,
              parent_context = [(MStr (S ''P1''), S ''notice period trade secrets'')]\<rparr>,
             (Retriever_init default_settings True True True)
               \<lparr>hybrid_search := ex_index,
                reranker := Some ((ReRanker_init default_settings)\<lparr>ranker_loaded := True\<rparr>)\<rparr>)
   \<and> chat_create ex_env_chat_down (model (QueryExpander_init default_settings)) detect_prompt
        (S ''notice period'') 0 10 = Inl timeout
   \<and> translation_step ex_env_chat_down (Retriever_init default_settings True True True) ex_query_ru
       = Inr ex_query_ru"
proof -
  have chat: "chat_create ex_env_chat_down m detect_prompt t 0 10 = Inl timeout" for m t
    by (simp add: ex_env_chat_down_def)
  then have raises': "collection_peek ex_env_chat_down 1 = Inl timeout
      \<or> (\<forall>m t. chat_create ex_env_chat_down m detect_prompt t 0 10 = Inl timeout)"
    by simp
  from C6_detection_failure_is_absorbed [OF raises',
      of "Retriever_init default_settings True True True" ex_query_ru]
  have other: "translation_step ex_env_chat_down (Retriever_init default_settings True True True)
      ex_query_ru = Inr ex_query_ru"
    by simp
  have peek: "collection_peek ex_env_peek_down 1 = Inl timeout"
    by (simp add: ex_env_peek_down_def)
  then have raises: "collection_peek ex_env_peek_down 1 = Inl timeout
      \<or> (\<forall>m t. chat_create ex_env_peek_down m detect_prompt t 0 10 = Inl timeout)"
    by simp
  have lang: "detect_query_language ex_env_peek_down ex_query_ru = Some (S ''Russian'')"
    using ex_detect_query by (simp add: detect_query_language_def ex_env_peek_down_def)
  have clock: "perf_counter ex_env_peek_down 0 = 0"
    by (simp add: ex_env_peek_down_def ex_env_docs_fields)
  have rest: "search_and_rank default_settings ex_env_peek_down
        (Retriever_init default_settings True True True) ex_query_ru ex_query_ru 5 0 False False
      = search_and_rank default_settings ex_env_docs
        (Retriever_init default_settings True True True) ex_query_ru ex_query_ru 5 0 False False"
    unfolding ex_env_peek_down_def by (rule search_and_rank_without_peek)
  from C6_detection_failure_is_absorbed [OF raises,
      of "Retriever_init default_settings True True True" ex_query_ru default_settings None False False]
  show ?thesis
    using peek lang chat other
    by (simp add: clock rest ex_search_and_rank_ru int_or_def default_settings_fields
        Retriever_init_fields)
qed

lemma ex_detect_doc_translate_down:
  "detect_doc_language ex_env_translate_down (Retriever_init default_settings True True True)
     = Some (S ''English'')"
proof -
  have "strip ex_env_translate_down (S ''English'') = S ''English''"
    using ex_strip(1) by (simp add: strip_def ex_env_translate_down_def)
  moreover have "filter (isalpha ex_env_translate_down) (S ''notice period'') \<noteq> []"
    using ex_sample(2) by (simp add: ex_env_translate_down_def)
  ultimately show ?thesis
    by (simp add: detect_doc_language_def ex_env_translate_down_def ex_env_docs_fields ex_corpus_def
      ex_sample Retriever_init_fields str_or_def S_Nil_iff Let_def)
qed

text \<open>
  C6 as stated fails for the translation call, whose error is not absorbed: with a
  Cyrillic query, English documents and a chat model that detects the language but is
  out of reach for the translation, \<open>retrieve\<close> raises.
\<close>

theorem C6_translation_error_counterexample:
  "use_query_translation (Retriever_init default_settings True True True)
   \<and> translate_query ex_env_translate_down (QueryExpander_init default_settings) ex_query_ru
        (S ''English'') = Inl timeout
   \<and> retrieve default_settings ex_env_translate_down
        (Retriever_init default_settings True True True) ex_query_ru None False False
       = Inl timeout"
proof -
  have lang: "detect_query_language ex_env_translate_down ex_query_ru = Some (S ''Russian'')"
    using ex_detect_query by (simp add: detect_query_language_def ex_env_translate_down_def)
  have low: "lower ex_env_translate_down (S ''English'') \<noteq> lower ex_env_translate_down (S ''Russian'')"
    using ex_lower by (simp add: ex_env_translate_down_def S_eq_iff)
  have tr: "translate_query ex_env_translate_down (QueryExpander_init default_settings) ex_query_ru
        (S ''English'') = Inl timeout"
    by (simp add: translate_query_def ex_env_translate_down_def)
  have "translation_step ex_env_translate_down (Retriever_init default_settings True True True)
          ex_query_ru = Inl timeout"
    using low
    by (simp add: translation_step_def lang ex_detect_doc_translate_down tr Retriever_init_fields
        S_Nil_iff)
  then show ?thesis using tr by (simp add: retrieve_def Retriever_init_fields Let_def)
qed

lemma retrieve_Inr:
  assumes "retrieve cfg E R q k0 uh um = Inr (res, R1)"
  shows "\<exists>sq queries all hs1.
           translation_step E R q = Inr sq
           \<and> expansion_step E R sq uh um = Inr queries
           \<and> search_all cfg E (hybrid_search R) (int_or k0 (RETRIEVAL_TOP_K cfg)) queries []
               = Inr (all, hs1)
           \<and> results res = fst (rerank_step E R q (sort_by_score (map snd all))
                                  (int_or k0 (RETRIEVAL_TOP_K cfg)))
           \<and> expanded_queries res = queries
           \<and> total_candidates res = length (sort_by_score (map snd all))
           \<and> get_parent_context E (results res) = Inr (parent_context res)"
proof -
  let ?k = "int_or k0 (RETRIEVAL_TOP_K cfg)"
  from assms obtain sq where sq: "translation_step E R q = Inr sq"
    and rest: "search_and_rank cfg E R q sq ?k (perf_counter E 0) uh um = Inr (res, R1)"
    by (cases "translation_step E R q") (simp_all add: retrieve_def Let_def)
  from rest obtain queries where qs: "expansion_step E R sq uh um = Inr queries"
    by (cases "expansion_step E R sq uh um") (simp_all add: search_and_rank_def)
  from rest qs obtain all hs1 where
    sa: "search_all cfg E (hybrid_search R) ?k queries [] = Inr (all, hs1)"
    by (cases "search_all cfg E (hybrid_search R) ?k queries []")
       (auto simp: search_and_rank_def)
  obtain rs rr1 where rk: "rerank_step E R q (sort_by_score (map snd all)) ?k = (rs, rr1)"
    by (cases "rerank_step E R q (sort_by_score (map snd all)) ?k")
  from rest qs sa rk obtain ctx where ctx: "get_parent_context E rs = Inr ctx"
    by (cases "get_parent_context E rs") (simp_all add: search_and_rank_def Let_def)
  from rest qs sa rk ctx have
    "res = \<lparr>results = rs, expanded_queries = queries,
            latency_ms = (perf_counter E 1 - perf_counter E 0) * 1000,
            total_candidates = length (sort_by_score (map snd all)),
            parent_context = ctx\<rparr>"
    by (simp add: search_and_rank_def Let_def)
  with sq qs sa rk ctx show ?thesis by simp
qed

lemma length_slice_to: "0 < k \<Longrightarrow> length (slice_to k xs) \<le> nat k"
  by (simp add: slice_to_def)

lemma slice_to_take: "0 \<le> k \<Longrightarrow> slice_to k xs = take (nat k) xs"
  by (simp add: slice_to_def)

lemma length_rerank:
  assumes "0 < k"
  shows "length (fst (rerank E rr q cands (Some k))) \<le> nat k"
proof -
  have own: "int_or (Some k) (top_n rr) = k" using assms by (simp add: int_or_def)
  show ?thesis
  proof (cases "cands = []")
    case True
    then show ?thesis by (simp add: rerank_def)
  next
    case False
    show ?thesis
    proof (cases "get_ranker E rr")
      case (Inl e)
      with False own show ?thesis
        using length_slice_to [OF assms, of cands] by (simp add: rerank_def Let_def)
    next
      case (Inr rr1)
      show ?thesis
      proof (cases "ranker_rerank E q (map passage_of cands)")
        case (Inl e)
        with False own Inr show ?thesis
          using length_slice_to [OF assms, of cands] by (simp add: rerank_def Let_def)
      next
        case ok: (Inr reranked)
        with False own Inr show ?thesis
          using length_slice_to [OF assms, of reranked] by (simp add: rerank_def Let_def)
      qed
    qed
  qed
qed

lemma length_rerank_step:
  assumes "0 < k"
  shows "length (fst (rerank_step E R q cands k)) \<le> nat k"
proof (cases "reranker R")
  case None
  then show ?thesis using length_slice_to [OF assms, of cands] by (simp add: rerank_step_def)
next
  case (Some rr)
  show ?thesis
  proof (cases "cands = []")
    case True
    with Some show ?thesis by (simp add: rerank_step_def slice_to_def)
  next
    case False
    obtain rs rr1 where r: "rerank E rr q cands (Some k) = (rs, rr1)"
      by (cases "rerank E rr q cands (Some k)")
    with Some False show ?thesis
      using length_rerank [OF assms, of E rr q cands]
      by (simp add: rerank_step_def)
  qed
qed

lemma ex_search_two:
  "search default_settings ex_env_docs (HybridSearch_init default_settings) (S ''notice'') (Some 2)
     = Inr ([ex_X 1, ex_Y 0], ex_index)"
  by (simp add: ex_env_docs_fields ex_tokens S_eq_iff ex_objs search_defs)

lemma ex_search_one_narrow:
  "search_all default_settings ex_env_docs (HybridSearch_init default_settings) 1 [S ''notice''] []
     = Inr ([(S ''X'', ex_X 1), (S ''Y'', ex_Y 0)], ex_index)"
  by (simp add: ex_search_two keep_best_def) (simp add: ex_X_def ex_Y_def S_eq_iff)

lemma ex_ranker_answer:
  "get_ranker ex_env_docs (ReRanker_init default_settings)
     = Inr ((ReRanker_init default_settings)\<lparr>ranker_loaded := True\<rparr>)"
  "ranker_rerank ex_env_docs ex_query_ru (map passage_of [ex_X 1, ex_Y 0])
     = Inr [\<lparr>r_id = S ''Y'', r_text = S ''trade secrets'',
              r_meta = [(S ''parent_id'', MStr (S ''P1''))], r_score = 4\<rparr>,
            \<lparr>r_id = S ''X'', r_text = S ''notice period'',
              r_meta = [(S ''parent_id'', MStr (S ''P1''))], r_score = 4\<rparr>]"
  by (simp_all add: get_ranker_def ReRanker_init_def ex_env_docs_fields ex_env_docs_calls
      passage_of_def ex_X_def ex_Y_def ex_query_ru_def)

lemma ex_rerank_narrow:
  "rerank ex_env_docs (ReRanker_init default_settings) ex_query_ru [ex_X 1, ex_Y 0] (Some 1)
     = ([ex_Y 4], (ReRanker_init default_settings)\<lparr>ranker_loaded := True\<rparr>)"
  by (simp add: rerank_def get_ranker_def ReRanker_init_def ex_env_docs_fields ex_env_docs_calls
      int_or_def slice_to_def passage_of_def result_of_def ex_X_def ex_Y_def ex_query_ru_def Let_def)

lemma ex_parents_one:
  "get_parent_context ex_env_docs [ex_Y 4] = Inr [(MStr (S ''P1''), S ''notice period trade secrets'')]"
  "get_parent_context ex_env_docs [ex_X 1] = Inr [(MStr (S ''P1''), S ''notice period trade secrets'')]"
  by (simp_all add: get_parent_context_def parent_ids_of_def truthy_def ex_X_def ex_Y_def S_Nil_iff
      ex_env_docs_fields ex_env_docs_calls Let_def)

lemma ex_retrieve_narrow:
  "retrieve default_settings ex_env_docs (Retriever_init default_settings True True True)
      ex_query_ru (Some 1) False False
     = Inr (\<lparr>results = [ex_Y 4], expanded_queries = [S ''notice''], latency_ms = 1000,
            total_candidates = 2,
            parent_context = [(MStr (S ''P1''), S ''notice period trade secrets'')]\<rparr>,
           (Retriever_init default_settings True True True)
             \<lparr>hybrid_search := ex_index,
              reranker := Some ((ReRanker_init default_settings)\<lparr>ranker_loaded := True\<rparr>)\<rparr>)"
  by (simp add: retrieve_def search_and_rank_def ex_translation expansion_step_def Retriever_init_fields
      ex_search_one_narrow ex_candidates rerank_step_def ex_rerank_narrow ex_parents_one
      ex_env_docs_fields int_or_def Let_def del: search_all.simps)

lemma ex_translation_plain:
  "translation_step ex_env_docs (Retriever_init default_settings False True True) ex_query_ru
     = Inr (S ''notice'')"
proof -
  have d: "detect_doc_language ex_env_docs (Retriever_init default_settings False True True)
      = Some (S ''English'')"
    by (simp add: detect_doc_language_def ex_env_docs_fields ex_env_docs_calls ex_corpus_def
      ex_sample Retriever_init_fields str_or_def ex_strip S_eq_iff S_Nil_iff Let_def)
  show ?thesis
    by (simp add: translation_step_def ex_detect_query d ex_lower S_eq_iff
      translate_query_def ex_env_docs_calls str_or_def ex_strip Retriever_init_fields S_Nil_iff)
qed

lemma ex_retrieve_narrow_plain:
  "retrieve default_settings ex_env_docs (Retriever_init default_settings False True True)
      ex_query_ru (Some 1) False False
     = Inr (\<lparr>results = [ex_X 1], expanded_queries = [S ''notice''], latency_ms = 1000,
            total_candidates = 2,
            parent_context = [(MStr (S ''P1''), S ''notice period trade secrets'')]\<rparr>,
           (Retriever_init default_settings False True True)
             \<lparr>hybrid_search := ex_index, reranker := None\<rparr>)"
  by (simp add: retrieve_def search_and_rank_def ex_translation_plain expansion_step_def
      Retriever_init_fields ex_search_one_narrow ex_candidates rerank_step_def ex_parents_one
      slice_to_def ex_env_docs_fields int_or_def Let_def del: search_all.simps)

text \<open>
  C7. Whenever \<open>retrieve\<close> returns, with \<open>k\<close> the requested number of results (the
  configured \<open>RETRIEVAL_TOP_K\<close> when the caller gives none or \<open>0\<close>) and the candidates
  the merged results of the searches in descending order of score: if reranking is
  enabled and there are candidates, the results are what the reranker returns for the
  query as the caller supplied it, also when another query was searched with, for these
  candidates and \<open>top_n = k\<close>; that is, for a positive \<open>k\<close>, the first \<open>k\<close> entries of the
  ranking of the model for the caller's query when the model answers, and the first \<open>k\<close>
  candidates when it fails. If reranking is disabled or there are no candidates, the
  results are the first \<open>k\<close> candidates. In every case there are at most \<open>k\<close> results.
\<close>

theorem C7_rerank_against_original_query:
  assumes "retrieve cfg E R q k0 use_hyde use_multi_query = Inr (res, R1)"
  shows "\<exists>search_query queries all hs1.
           translation_step E R q = Inr search_query
           \<and> expansion_step E R search_query use_hyde use_multi_query = Inr queries
           \<and> search_all cfg E (hybrid_search R) (int_or k0 (RETRIEVAL_TOP_K cfg)) queries []
               = Inr (all, hs1)
           \<and> (\<forall>rr. reranker R = Some rr \<and> sort_by_score (map snd all) \<noteq> [] \<longrightarrow>
                 results res = fst (rerank E rr q (sort_by_score (map snd all))
                                      (Some (int_or k0 (RETRIEVAL_TOP_K cfg))))
                 \<and> (\<forall>rr1 reranked.
                        int_or k0 (RETRIEVAL_TOP_K cfg) \<noteq> 0 \<and> get_ranker E rr = Inr rr1
                        \<and> ranker_rerank E q (map passage_of (sort_by_score (map snd all)))
                            = Inr reranked
                        \<longrightarrow> results res = map result_of
                              (slice_to (int_or k0 (RETRIEVAL_TOP_K cfg)) reranked))
                 \<and> (\<forall>e. int_or k0 (RETRIEVAL_TOP_K cfg) \<noteq> 0
                        \<and> (get_ranker E rr = Inl e
                            \<or> ranker_rerank E q (map passage_of (sort_by_score (map snd all)))
                                = Inl e)
                        \<longrightarrow> results res = slice_to (int_or k0 (RETRIEVAL_TOP_K cfg))
                                            (sort_by_score (map snd all)))
                 \<and> (\<forall>rr1 reranked.
                        0 < int_or k0 (RETRIEVAL_TOP_K cfg) \<and> get_ranker E rr = Inr rr1
                        \<and> ranker_rerank E q (map passage_of (sort_by_score (map snd all)))
                            = Inr reranked
                        \<longrightarrow> results res = map result_of
                              (take (nat (int_or k0 (RETRIEVAL_TOP_K cfg))) reranked))
                 \<and> (\<forall>e. 0 < int_or k0 (RETRIEVAL_TOP_K cfg)
                        \<and> (get_ranker E rr = Inl e
                            \<or> ranker_rerank E q (map passage_of (sort_by_score (map snd all)))
                                = Inl e)
                        \<longrightarrow> results res = take (nat (int_or k0 (RETRIEVAL_TOP_K cfg)))
                                            (sort_by_score (map snd all))))
           \<and> (reranker R = None \<or> sort_by_score (map snd all) = [] \<longrightarrow>
                 results res = slice_to (int_or k0 (RETRIEVAL_TOP_K cfg))
                                 (sort_by_score (map snd all)))
           \<and> (0 \<le> int_or k0 (RETRIEVAL_TOP_K cfg)
                \<and> (reranker R = None \<or> sort_by_score (map snd all) = []) \<longrightarrow>
                 results res = take (nat (int_or k0 (RETRIEVAL_TOP_K cfg)))
                                 (sort_by_score (map snd all)))
           \<and> (0 < int_or k0 (RETRIEVAL_TOP_K cfg) \<longrightarrow>
                 length (results res) \<le> nat (int_or k0 (RETRIEVAL_TOP_K cfg)))"
proof -
  let ?k = "int_or k0 (RETRIEVAL_TOP_K cfg)"
  from retrieve_Inr [OF assms] obtain sq queries all hs1 where
    sq: "translation_step E R q = Inr sq"
    and qs: "expansion_step E R sq use_hyde use_multi_query = Inr queries"
    and sa: "search_all cfg E (hybrid_search R) ?k queries [] = Inr (all, hs1)"
    and rs: "results res = fst (rerank_step E R q (sort_by_score (map snd all)) ?k)"
    by blast
  let ?cands = "sort_by_score (map snd all)"
  have on: "results res = fst (rerank E rr q ?cands (Some ?k))"
    if "reranker R = Some rr" "?cands \<noteq> []" for rr
    using rs that by (simp add: rerank_step_def split: prod.splits)
  have own: "int_or (Some ?k) (top_n rr) = ?k" if "?k \<noteq> 0" for rr
    using that by (simp add: int_or_def)
  have ranked: "results res = map result_of (slice_to ?k reranked)"
    if "reranker R = Some rr" "?cands \<noteq> []"
      "?k \<noteq> 0 \<and> get_ranker E rr = Inr rr1
       \<and> ranker_rerank E q (map passage_of ?cands) = Inr reranked"
    for rr rr1 reranked
    using on [OF that(1,2)] that(2,3) own [of rr]
    by (simp add: rerank_def Let_def)
  have failed: "results res = slice_to ?k ?cands"
    if "reranker R = Some rr" "?cands \<noteq> []"
      "?k \<noteq> 0 \<and> (get_ranker E rr = Inl e
                   \<or> ranker_rerank E q (map passage_of ?cands) = Inl e)"
    for rr e
  proof -
    from that(3) have "get_ranker E rr = Inl e
        \<or> ranker_rerank E q (map passage_of ?cands) = Inl e"
      by simp
    then have "fst (rerank E rr q ?cands (Some ?k))
        = slice_to (int_or (Some ?k) (top_n rr)) ?cands"
      by (rule rerank_fallback)
    then show ?thesis using on [OF that(1,2)] that(3) own [of rr] by simp
  qed
  have ranked_cut: "results res = map result_of (take (nat ?k) reranked)"
    if "reranker R = Some rr" "?cands \<noteq> []"
      "0 < ?k \<and> get_ranker E rr = Inr rr1
       \<and> ranker_rerank E q (map passage_of ?cands) = Inr reranked"
    for rr rr1 reranked
    using ranked [OF that(1,2), of rr1 reranked] that(3) by (simp add: slice_to_take)
  have failed_cut: "results res = take (nat ?k) ?cands"
    if "reranker R = Some rr" "?cands \<noteq> []"
      "0 < ?k \<and> (get_ranker E rr = Inl e
                  \<or> ranker_rerank E q (map passage_of ?cands) = Inl e)"
    for rr e
    using failed [OF that(1,2), of e] that(3) by (simp add: slice_to_take)
  have off: "results res = slice_to ?k ?cands" if "reranker R = None \<or> ?cands = []"
    using rs that by (auto simp: rerank_step_def split: option.splits)
  have off_cut: "results res = take (nat ?k) ?cands"
    if "0 \<le> ?k \<and> (reranker R = None \<or> ?cands = [])"
    using off that by (simp add: slice_to_take)
  have short: "length (results res) \<le> nat ?k" if "0 < ?k"
    unfolding rs using that by (rule length_rerank_step)
  have "(\<forall>rr. reranker R = Some rr \<and> ?cands \<noteq> [] \<longrightarrow>
           results res = fst (rerank E rr q ?cands (Some ?k))
           \<and> (\<forall>rr1 reranked.
                  ?k \<noteq> 0 \<and> get_ranker E rr = Inr rr1
                  \<and> ranker_rerank E q (map passage_of ?cands) = Inr reranked
                  \<longrightarrow> results res = map result_of (slice_to ?k reranked))
           \<and> (\<forall>e. ?k \<noteq> 0
                  \<and> (get_ranker E rr = Inl e
                      \<or> ranker_rerank E q (map passage_of ?cands) = Inl e)
                  \<longrightarrow> results res = slice_to ?k ?cands)
           \<and> (\<forall>rr1 reranked.
                  0 < ?k \<and> get_ranker E rr = Inr rr1
                  \<and> ranker_rerank E q (map passage_of ?cands) = Inr reranked
                  \<longrightarrow> results res = map result_of (take (nat ?k) reranked))
           \<and> (\<forall>e. 0 < ?k
                  \<and> (get_ranker E rr = Inl e
                      \<or> ranker_rerank E q (map passage_of ?cands) = Inl e)
                  \<longrightarrow> results res = take (nat ?k) ?cands))"
    using on ranked failed ranked_cut failed_cut by blast
  with sq qs sa off off_cut short show ?thesis by blast
qed

theorem C7_rerank_against_original_query_witness:
  "retrieve default_settings ex_env_docs (Retriever_init default_settings True True True)
      ex_query_ru None False False
     = Inr (\<lparr>results = [ex_Y 4, ex_X 4], expanded_queries = [S ''notice''], latency_ms = 1000,
            total_candidates = 2,
            parent_context = [(MStr (S ''P1''), S ''notice period trade secrets'')]\<rparr>,
           (Retriever_init default_settings True True True)
             \<lparr>hybrid_search := ex_index,
              reranker := Some ((ReRanker_init default_settings)\<lparr>ranker_loaded := True\<rparr>)\<rparr>)
   \<and> translation_step ex_env_docs (Retriever_init default_settings True True True) ex_query_ru
       = Inr (S ''notice'')
   \<and> S ''notice'' \<noteq> ex_query_ru
   \<and> reranker (Retriever_init default_settings True True True)
       = Some (ReRanker_init default_settings)
   \<and> [ex_Y 4, ex_X 4]
       = fst (rerank ex_env_docs (ReRanker_init default_settings) ex_query_ru [ex_X 1, ex_Y 0]
                (Some 5))
   \<and> [ex_Y 4, ex_X 4]
       \<noteq> fst (rerank ex_env_docs (ReRanker_init default_settings) (S ''notice'') [ex_X 1, ex_Y 0]
                (Some 5))
   \<and> retrieve default_settings ex_env_docs (Retriever_init default_settings True True True)
        ex_query_ru (Some 1) False False
       = Inr (\<lparr>results = [ex_Y 4], expanded_queries = [S ''notice''], latency_ms = 1000,
              total_candidates = 2,
              parent_context = [(MStr (S ''P1''), S ''notice period trade secrets'')]\<rparr>,
             (Retriever_init default_settings True True True)
               \<lparr>hybrid_search := ex_index,
                reranker := Some ((ReRanker_init default_settings)\<lparr>ranker_loaded := True\<rparr>)\<rparr>)
   \<and> [ex_Y 4] = map result_of (take (nat 1)
         [\<lparr>r_id = S ''Y'', r_text = S ''trade secrets'',
            r_meta = [(S ''parent_id'', MStr (S ''P1''))], r_score = 4\<rparr>,
          \<lparr>r_id = S ''X'', r_text = S ''notice period'',
            r_meta = [(S ''parent_id'', MStr (S ''P1''))], r_score = 4\<rparr>])
   \<and> length [ex_Y 4] \<le> nat 1
   \<and> retrieve default_settings ex_env_docs (Retriever_init default_settings False True True)
        ex_query_ru (Some 1) False False
       = Inr (\<lparr>results = [ex_X 1], expanded_queries = [S ''notice''], latency_ms = 1000,
              total_candidates = 2,
              parent_context = [(MStr (S ''P1''), S ''notice period trade secrets'')]\<rparr>,
             (Retriever_init default_settings False True True)
               \<lparr>hybrid_search := ex_index, reranker := None\<rparr>)
   \<and> reranker (Retriever_init default_settings False True True) = None
   \<and> [ex_X 1] = take (nat 1) [ex_X 1, ex_Y 0]"
proof -
  from C7_rerank_against_original_query [OF ex_retrieve] obtain sq queries all hs1 where
    "translation_step ex_env_docs (Retriever_init default_settings True True True) ex_query_ru
       = Inr sq"
    "expansion_step ex_env_docs (Retriever_init default_settings True True True) sq False False
       = Inr queries"
    "search_all default_settings ex_env_docs
       (hybrid_search (Retriever_init default_settings True True True))
       (int_or None (RETRIEVAL_TOP_K default_settings)) queries [] = Inr (all, hs1)"
    and on: "\<forall>rr. reranker (Retriever_init default_settings True True True) = Some rr
                \<and> sort_by_score (map snd all) \<noteq> [] \<longrightarrow>
              [ex_Y 4, ex_X 4] = fst (rerank ex_env_docs rr ex_query_ru (sort_by_score (map snd all))
                                       (Some (int_or None (RETRIEVAL_TOP_K default_settings))))"
    by simp blast
  then have "sq = S ''notice''" "queries = [S ''notice'']"
      "all = [(S ''X'', ex_X 1), (S ''Y'', ex_Y 0)]"
    using ex_translation ex_search_one
    by (simp_all add: expansion_step_def Retriever_init_fields int_or_def default_settings_fields
        del: search_all.simps)
  with on have wide: "[ex_Y 4, ex_X 4]
       = fst (rerank ex_env_docs (ReRanker_init default_settings) ex_query_ru [ex_X 1, ex_Y 0]
                (Some 5))"
    by (simp add: Retriever_init_fields ex_candidates int_or_def default_settings_fields)
  have other: "[ex_Y 4, ex_X 4]
       \<noteq> fst (rerank ex_env_docs (ReRanker_init default_settings) (S ''notice'') [ex_X 1, ex_Y 0]
                (Some 5))"
    by (simp add: rerank_def get_ranker_def ReRanker_init_def ex_env_docs_fields ex_env_docs_calls
      int_or_def slice_to_def passage_of_def result_of_def ex_X_def ex_Y_def S_def Let_def)
  have differ: "S ''notice'' \<noteq> ex_query_ru"
    by (simp add: S_def ex_query_ru_def)
  from C7_rerank_against_original_query [OF ex_retrieve_narrow] obtain sq' queries' all' hs1' where
    "translation_step ex_env_docs (Retriever_init default_settings True True True) ex_query_ru
       = Inr sq'"
    "expansion_step ex_env_docs (Retriever_init default_settings True True True) sq' False False
       = Inr queries'"
    "search_all default_settings ex_env_docs
       (hybrid_search (Retriever_init default_settings True True True))
       (int_or (Some 1) (RETRIEVAL_TOP_K default_settings)) queries' [] = Inr (all', hs1')"
    and cut: "\<forall>rr. reranker (Retriever_init default_settings True True True) = Some rr
                \<and> sort_by_score (map snd all') \<noteq> [] \<longrightarrow>
              (\<forall>rr1 reranked.
                  0 < int_or (Some 1) (RETRIEVAL_TOP_K default_settings)
                  \<and> get_ranker ex_env_docs rr = Inr rr1
                  \<and> ranker_rerank ex_env_docs ex_query_ru
                       (map passage_of (sort_by_score (map snd all'))) = Inr reranked
                  \<longrightarrow> [ex_Y 4] = map result_of
                        (take (nat (int_or (Some 1) (RETRIEVAL_TOP_K default_settings))) reranked))"
    and short: "0 < int_or (Some 1) (RETRIEVAL_TOP_K default_settings) \<longrightarrow>
              length [ex_Y 4] \<le> nat (int_or (Some 1) (RETRIEVAL_TOP_K default_settings))"
    by simp blast
  then have "sq' = S ''notice''" "queries' = [S ''notice'']"
      "all' = [(S ''X'', ex_X 1), (S ''Y'', ex_Y 0)]"
    using ex_translation ex_search_one_narrow
    by (simp_all add: expansion_step_def Retriever_init_fields int_or_def
        del: search_all.simps)
  with cut ex_ranker_answer have narrow: "[ex_Y 4] = map result_of (take (nat 1)
         [\<lparr>r_id = S ''Y'', r_text = S ''trade secrets'',
            r_meta = [(S ''parent_id'', MStr (S ''P1''))], r_score = 4\<rparr>,
          \<lparr>r_id = S ''X'', r_text = S ''notice period'',
            r_meta = [(S ''parent_id'', MStr (S ''P1''))], r_score = 4\<rparr>])"
    by (simp add: Retriever_init_fields ex_candidates int_or_def)
  from short have few: "length [ex_Y 4] \<le> nat 1"
    by (simp add: int_or_def)
  from C7_rerank_against_original_query [OF ex_retrieve_narrow_plain]
  obtain sq'' queries'' all'' hs1'' where
    "translation_step ex_env_docs (Retriever_init default_settings False True True) ex_query_ru
       = Inr sq''"
    "expansion_step ex_env_docs (Retriever_init default_settings False True True) sq'' False False
       = Inr queries''"
    "search_all default_settings ex_env_docs
       (hybrid_search (Retriever_init default_settings False True True))
       (int_or (Some 1) (RETRIEVAL_TOP_K default_settings)) queries'' [] = Inr (all'', hs1'')"
    and plain: "0 \<le> int_or (Some 1) (RETRIEVAL_TOP_K default_settings)
                \<and> (reranker (Retriever_init default_settings False True True) = None
                    \<or> sort_by_score (map snd all'') = []) \<longrightarrow>
              [ex_X 1] = take (nat (int_or (Some 1) (RETRIEVAL_TOP_K default_settings)))
                           (sort_by_score (map snd all''))"
    by simp blast
  then have "sq'' = S ''notice''" "queries'' = [S ''notice'']"
      "all'' = [(S ''X'', ex_X 1), (S ''Y'', ex_Y 0)]"
    using ex_translation_plain ex_search_one_narrow
    by (simp_all add: expansion_step_def Retriever_init_fields int_or_def
        del: search_all.simps)
  with plain have first: "[ex_X 1] = take (nat 1) [ex_X 1, ex_Y 0]"
    by (simp add: Retriever_init_fields ex_candidates int_or_def)
  have enabled: "reranker (Retriever_init default_settings True True True)
      = Some (ReRanker_init default_settings)"
    by (simp add: Retriever_init_fields)
  have disabled: "reranker (Retriever_init default_settings False True True) = None"
    by (simp add: Retriever_init_fields)
  show ?thesis
    by (intro conjI)
      (rule ex_retrieve ex_translation differ enabled wide other ex_retrieve_narrow narrow few
        ex_retrieve_narrow_plain disabled first)+
qed

lemma merge_nothing: "sort_by_score (combined a (merge_by_id [] [])) = []"
  by (simp add: merge_by_id_def combined_def sort_by_score_def)

lemma slice_to_Nil: "slice_to k [] = []"
  by (simp add: slice_to_def)

lemma vector_search_no_hits:
  assumes "embed_query E q = Inr emb"
    and "collection_query E emb k = Inr r" and "q_ids r = [] \<or> hd (q_ids r) = []"
  shows "vector_search E q k = Inr []"
  using assms by (simp add: vector_search_def)

lemma bm25_search_no_documents:
  assumes "collection_get E = Inr g" and "get_documents g = []" and "bm25 hs = None"
  shows "bm25_search E hs q k = Inr ([], hs)"
  using assms by (simp add: bm25_search_def build_bm25_index_def)

lemma search_empty_corpus:
  assumes "collection_get E = Inr g" and "get_documents g = []" and "bm25 hs = None"
    and "\<forall>emb n. \<exists>r. collection_query E emb n = Inr r \<and> (q_ids r = [] \<or> hd (q_ids r) = [])"
    and "embed_query E q = Inr emb"
  shows "search cfg E hs q k0 = Inr ([], hs)"
proof -
  let ?n = "int_or k0 (RETRIEVAL_TOP_K cfg) * 3"
  from assms(4) obtain r where "collection_query E emb ?n = Inr r"
    "q_ids r = [] \<or> hd (q_ids r) = []"
    by blast
  with assms(5) have v: "vector_search E q ?n = Inr []"
    by (rule vector_search_no_hits)
  have b: "bm25_search E hs q ?n = Inr ([], hs)"
    using assms(1-3) by (rule bm25_search_no_documents)
  show ?thesis
    by (simp add: search_def Let_def v b merge_nothing slice_to_Nil)
qed

lemma search_all_empty_corpus:
  assumes "collection_get E = Inr g" and "get_documents g = []" and "bm25 hs = None"
    and "\<forall>emb n. \<exists>r. collection_query E emb n = Inr r \<and> (q_ids r = [] \<or> hd (q_ids r) = [])"
    and "\<forall>x \<in> set qs. \<exists>emb. embed_query E x = Inr emb"
  shows "search_all cfg E hs k qs [] = Inr ([], hs)"
  using assms(5)
proof (induction qs)
  case Nil
  show ?case by simp
next
  case (Cons x xs)
  then obtain emb where "embed_query E x = Inr emb" by auto
  from search_empty_corpus [OF assms(1-4) this]
  have "search cfg E hs x (Some (k * 2)) = Inr ([], hs)" .
  with Cons show ?case by simp
qed

lemma detect_doc_language_no_documents:
  assumes "\<forall>s. collection_peek E 1 = Inr s \<longrightarrow> get_documents s = []"
  shows "detect_doc_language E R = None"
  using assms by (simp add: detect_doc_language_def split: sum.splits)

lemma rerank_step_Nil: "rerank_step E R q [] k = ([], reranker R)"
  by (simp add: rerank_step_def slice_to_Nil split: option.splits)

lemma get_parent_context_Nil: "get_parent_context E [] = Inr []"
  by (simp add: get_parent_context_def parent_ids_of_def)

text \<open>
  C9. When the stored corpus is empty (the collection holds no documents, so that
  listing and sampling it give none and a nearest-neighbour query finds no id, and no
  lexical index was built before), and the model calls that \<open>retrieve\<close> makes on the way
  (the expansion, when asked for, and the embedding of each query variant) answer, then
  \<open>retrieve\<close> does not raise: it returns a result with no results, \<open>total_candidates = 0\<close>
  and an empty parent context, and leaves the retriever as it was.
\<close>

theorem C9_empty_corpus_gives_empty_result:
  assumes "collection_get E = Inr g" and "get_documents g = []"
    and "\<forall>s. collection_peek E 1 = Inr s \<longrightarrow> get_documents s = []"
    and "\<forall>emb n. \<exists>r. collection_query E emb n = Inr r \<and> (q_ids r = [] \<or> hd (q_ids r) = [])"
    and "bm25 (hybrid_search R) = None"
    and "expansion_step E R q use_hyde use_multi_query = Inr queries"
    and "\<forall>x \<in> set queries. \<exists>emb. embed_query E x = Inr emb"
  shows "retrieve cfg E R q k0 use_hyde use_multi_query =
           Inr (\<lparr>results = [], expanded_queries = queries,
                 latency_ms = (perf_counter E 1 - perf_counter E 0) * 1000,
                 total_candidates = 0, parent_context = []\<rparr>, R)"
proof -
  have "detect_doc_language E R = None"
    using assms(3) by (rule detect_doc_language_no_documents)
  then have sq: "translation_step E R q = Inr q"
    by (rule translation_step_no_doc_language)
  have sa: "search_all cfg E (hybrid_search R) k queries [] = Inr ([], hybrid_search R)" for k
    using assms(1,2,5,4,7) by (rule search_all_empty_corpus)
  have same: "R\<lparr>hybrid_search := hybrid_search R, reranker := reranker R\<rparr> = R"
    by simp
  show ?thesis
    by (simp add: retrieve_def search_and_rank_def Let_def sq assms(6) sa sort_by_score_def
        rerank_step_Nil get_parent_context_Nil same del: search_all.simps)
qed

lemma ex_env_fields:
  "collection_get ex_env = Inr no_docs"
  "collection_peek ex_env = (\<lambda>limit. Inr no_docs)"
  "collection_query ex_env = (\<lambda>embedding n. Inr no_hits)"
  "embed_query ex_env = (\<lambda>q. Inr [])"
  "chat_create ex_env = (\<lambda>m sys usr temperature max_tokens. Inr None)"
  "perf_counter ex_env = (\<lambda>n. real n)"
  by (simp_all add: ex_env_def)

lemma ex_expansion_empty:
  "expansion_step ex_env (Retriever_init default_settings True True True) (S ''notice'') True True
     = Inr [S ''notice'', []]"
  by (simp add: expansion_step_def Retriever_init_fields expand_def hyde_def multi_query_def
      ex_env_fields str_or_def strip_def split_lines_def slice_to_def Let_def)

theorem C9_empty_corpus_gives_empty_result_witness:
  "collection_get ex_env = Inr no_docs \<and> get_documents no_docs = []
   \<and> collection_peek ex_env 1 = Inr no_docs
   \<and> collection_query ex_env [] 30 = Inr no_hits \<and> hd (q_ids no_hits) = []
   \<and> bm25 (hybrid_search (Retriever_init default_settings True True True)) = None
   \<and> expansion_step ex_env (Retriever_init default_settings True True True) (S ''notice'') True True
       = Inr [S ''notice'', []]
   \<and> embed_query ex_env (S ''notice'') = Inr [] \<and> embed_query ex_env [] = Inr []
   \<and> retrieve default_settings ex_env (Retriever_init default_settings True True True)
        (S ''notice'') None True True
       = Inr (\<lparr>results = [], expanded_queries = [S ''notice'', []], latency_ms = 1000,
              total_candidates = 0, parent_context = []\<rparr>,
             Retriever_init default_settings True True True)"
proof -
  have docs: "get_documents no_docs = []" by (simp add: no_docs_def)
  have peek: "\<forall>s. collection_peek ex_env 1 = Inr s \<longrightarrow> get_documents s = []"
    by (simp add: ex_env_fields docs)
  have hits: "\<forall>emb n. \<exists>r. collection_query ex_env emb n = Inr r \<and> (q_ids r = [] \<or> hd (q_ids r) = [])"
    by (simp add: ex_env_fields no_hits_def)
  have fresh: "bm25 (hybrid_search (Retriever_init default_settings True True True)) = None"
    by (simp add: Retriever_init_fields HybridSearch_init_def)
  have embed: "\<forall>x \<in> set [S ''notice'', []]. \<exists>emb. embed_query ex_env x = Inr emb"
    by (simp add: ex_env_fields)
  from C9_empty_corpus_gives_empty_result [OF ex_env_fields(1) docs peek hits fresh
      ex_expansion_empty embed, of default_settings None]
  have "retrieve default_settings ex_env (Retriever_init default_settings True True True)
        (S ''notice'') None True True
       = Inr (\<lparr>results = [], expanded_queries = [S ''notice'', []], latency_ms = 1000,
              total_candidates = 0, parent_context = []\<rparr>,
             Retriever_init default_settings True True True)"
    by (simp add: ex_env_fields)
  with docs fresh ex_expansion_empty show ?thesis
    by (simp add: ex_env_fields no_hits_def)
qed

section \<open>Properties of the chunker\<close>

lemma children_of_parent_id:
  "c \<in> set (fst (children_of E page fname pid ts n)) \<Longrightarrow> parent_id c = Some pid"
proof (induction ts arbitrary: n)
  case Nil
  then show ?case by simp
next
  case (Cons t ts)
  obtain cs n1 where rec: "children_of E page fname pid ts (Suc n) = (cs, n1)"
    by (cases "children_of E page fname pid ts (Suc n)")
  from Cons.prems rec have "parent_id c = Some pid \<or> c \<in> set cs"
    by (auto simp: Let_def)
  moreover have "parent_id c = Some pid" if "c \<in> set cs"
    using Cons.IH [of "Suc n"] rec that by simp
  ultimately show ?case by blast
qed

lemma parents_of_integrity:
  "parents_of cfg E page fname ts n = (ps, cs, n') \<Longrightarrow>
     (\<forall>c \<in> set cs. \<exists>p \<in> set ps. parent_id c = Some (chunk_id_c p))
     \<and> (\<forall>p \<in> set ps. parent_id p = None)"
proof (induction ts arbitrary: n ps cs n')
  case Nil
  then show ?case by simp
next
  case (Cons t ts)
  obtain cs1 n1 where ch: "children_of E page fname (uuid4 E n) (child_splitter cfg E t) (Suc n) = (cs1, n1)"
    by (cases "children_of E page fname (uuid4 E n) (child_splitter cfg E t) (Suc n)")
  obtain ps2 cs2 n2 where rec: "parents_of cfg E page fname ts n1 = (ps2, cs2, n2)"
    by (cases "parents_of cfg E page fname ts n1") auto
  let ?p = "\<lparr>chunk_id_c = uuid4 E n, text_c = t,
                metadata_c = parent_metadata page fname, parent_id = None\<rparr>"
  from Cons.prems ch rec have ps: "ps = ?p # ps2" and cs: "cs = cs1 @ cs2"
    by (simp_all add: Let_def)
  have own: "parent_id c = Some (uuid4 E n)" if "c \<in> set cs1" for c
    using children_of_parent_id [of c E page fname "uuid4 E n" "child_splitter cfg E t" "Suc n"] ch that
    by simp
  from Cons.IH [OF rec] have ih1: "\<forall>c \<in> set cs2. \<exists>p \<in> set ps2. parent_id c = Some (chunk_id_c p)"
    and ih2: "\<forall>p \<in> set ps2. parent_id p = None" by simp_all
  show ?case
  proof (intro conjI ballI)
    fix c assume "c \<in> set cs"
    then consider "c \<in> set cs1" | "c \<in> set cs2" using cs by auto
    then show "\<exists>p \<in> set ps. parent_id c = Some (chunk_id_c p)"
    proof cases
      case 1
      then show ?thesis using own ps by simp
    next
      case 2
      then show ?thesis using ih1 ps by auto
    qed
  next
    fix p assume "p \<in> set ps"
    then show "parent_id p = None" using ps ih2 by auto
  qed
qed

lemma pages_of_integrity:
  "pages_of cfg E fname pgs n = (ps, cs, n') \<Longrightarrow>
     (\<forall>c \<in> set cs. \<exists>p \<in> set ps. parent_id c = Some (chunk_id_c p))
     \<and> (\<forall>p \<in> set ps. parent_id p = None)"
proof (induction pgs arbitrary: n ps cs n')
  case Nil
  then show ?case by simp
next
  case (Cons page pgs)
  obtain ps1 cs1 n1 where one: "parents_of cfg E page fname (parent_splitter cfg E (page_text page)) n = (ps1, cs1, n1)"
    by (cases "parents_of cfg E page fname (parent_splitter cfg E (page_text page)) n") auto
  obtain ps2 cs2 n2 where rec: "pages_of cfg E fname pgs n1 = (ps2, cs2, n2)"
    by (cases "pages_of cfg E fname pgs n1") auto
  from Cons.prems one rec have ps: "ps = ps1 @ ps2" and cs: "cs = cs1 @ cs2"
    by simp_all
  note a = parents_of_integrity [OF one]
  note b = Cons.IH [OF rec]
  show ?case unfolding ps cs using a b by (auto simp: ball_Un)
qed

text \<open>
  C8. In every chunked document the chunker produces, each child chunk's \<open>parent_id\<close> is
  the \<open>chunk_id\<close> of one of the produced parent chunks, and each parent chunk has no
  \<open>parent_id\<close>.
\<close>

theorem C8_chunk_document_parent_ids:
  "(\<forall>c \<in> set (child_chunks (fst (chunk_document cfg E document n))).
      \<exists>p \<in> set (parent_chunks (fst (chunk_document cfg E document n))).
        parent_id c = Some (chunk_id_c p))
   \<and> (\<forall>p \<in> set (parent_chunks (fst (chunk_document cfg E document n))).
        parent_id p = None)"
proof -
  obtain ps cs n' where pg: "pages_of cfg E (filename document) (pages document) n = (ps, cs, n')"
    by (cases "pages_of cfg E (filename document) (pages document) n") auto
  then have "child_chunks (fst (chunk_document cfg E document n)) = cs"
    and "parent_chunks (fst (chunk_document cfg E document n)) = ps"
    by (simp_all add: chunk_document_def)
  then show ?thesis using pages_of_integrity [OF pg] by simp
qed

theorem C8_chunk_document_parent_ids_witness:
  "map parent_id (child_chunks (fst (chunk_document default_settings ex_env ex_document 0)))
     = [Some (uuid4 ex_env 0), Some (uuid4 ex_env 0), Some (uuid4 ex_env 3)]
   \<and> map chunk_id_c (parent_chunks (fst (chunk_document default_settings ex_env ex_document 0)))
     = [uuid4 ex_env 0, uuid4 ex_env 3]
   \<and> list_all (\<lambda>c. \<exists>p \<in> set (parent_chunks
                       (fst (chunk_document default_settings ex_env ex_document 0))).
                    parent_id c = Some (chunk_id_c p))
        (child_chunks (fst (chunk_document default_settings ex_env ex_document 0)))
   \<and> list_all (\<lambda>p. parent_id p = None)
        (parent_chunks (fst (chunk_document default_settings ex_env ex_document 0)))"
proof -
  have run:
    "map parent_id (child_chunks (fst (chunk_document default_settings ex_env ex_document 0)))
       = [Some (uuid4 ex_env 0), Some (uuid4 ex_env 0), Some (uuid4 ex_env 3)]"
    "map chunk_id_c (parent_chunks (fst (chunk_document default_settings ex_env ex_document 0)))
       = [uuid4 ex_env 0, uuid4 ex_env 3]"
    by (simp_all add: chunk_document_def ex_document_def parent_splitter_def
          child_splitter_def default_settings_def ex_env_def S_def Let_def)
  from C8_chunk_document_parent_ids [of default_settings ex_env ex_document 0]
  have "list_all (\<lambda>c. \<exists>p \<in> set (parent_chunks
                       (fst (chunk_document default_settings ex_env ex_document 0))).
                    parent_id c = Some (chunk_id_c p))
          (child_chunks (fst (chunk_document default_settings ex_env ex_document 0)))
        \<and> list_all (\<lambda>p. parent_id p = None)
          (parent_chunks (fst (chunk_document default_settings ex_env ex_document 0)))"
    by (simp only: list_all_iff)
  with run show ?thesis by blast
qed

end
